theory Spec2Isabelle
  imports Complex_Main "HOL-Library.Char_ord" "HOL-Library.List_Lexorder" "HOL-Library.Multiset"
begin

section \<open>Python values and exceptions\<close>

text \<open>
  The exceptions app.py can meet. \<open>DownloadFailed c\<close> is the
  \<^verbatim>\<open>Exception("Failed to download NVD feed: c")\<close> of download_feed and \<open>CsvError\<close>
  is the csv module's \<^verbatim>\<open>_csv.Error\<close>; the others are Python's own. A computation that may raise returns \<open>error + 'a\<close>, \<open>Inl\<close> the
  exception.
\<close>

datatype error =
    DownloadFailed int
  | ConnectionError
  | BadGzipFile
  | JSONDecodeError
  | KeyError string
  | IndexError
  | TypeError
  | AttributeError
  | ValueError
  | OSError
  | CsvError
  | UnicodeEncodeError

definition bind :: "error + 'a \<Rightarrow> ('a \<Rightarrow> error + 'b) \<Rightarrow> error + 'b" where
  "bind m f = (case m of Inl e \<Rightarrow> Inl e | Inr x \<Rightarrow> f x)"

text \<open>
  A Python float, by its exact value: a comparison of a float with an int is exact in
  Python, so a finite float is the rational it denotes.
\<close>

datatype pyfloat = FNum rat | FInf | FNegInf | FNaN

text \<open>
  What \<^verbatim>\<open>json.loads\<close> returns: None, bool, int, float, str, list, dict. A dict is
  the list of its items (keys distinct, as json.loads leaves them), read with
  \<open>map_of\<close>.
\<close>

datatype json =
    JNull
  | JBool bool
  | JInt int
  | JFloat pyfloat
  | JStr string
  | JArr "json list"
  | JObj "(string \<times> json) list"

text \<open>\<^verbatim>\<open>d.get(k, default)\<close>: only a dict has the method.\<close>

definition dict_get :: "json \<Rightarrow> string \<Rightarrow> json \<Rightarrow> error + json" where
  "dict_get d k dflt =
     (case d of
        JObj kvs \<Rightarrow> (case map_of kvs k of None \<Rightarrow> Inr dflt | Some v \<Rightarrow> Inr v)
      | _ \<Rightarrow> Inl AttributeError)"

text \<open>\<^verbatim>\<open>v["k"]\<close> with a str key: KeyError on a dict without it, TypeError elsewhere.\<close>

definition getitem :: "json \<Rightarrow> string \<Rightarrow> error + json" where
  "getitem v k =
     (case v of
        JObj kvs \<Rightarrow> (case map_of kvs k of None \<Rightarrow> Inl (KeyError k) | Some x \<Rightarrow> Inr x)
      | _ \<Rightarrow> Inl TypeError)"

text \<open>
  \<^verbatim>\<open>v[0]\<close>: the first element of a list or str (IndexError when empty); a dict decoded
  from JSON has str keys only, so key 0 is missing; anything else is not subscriptable.
\<close>

definition getitem0 :: "json \<Rightarrow> error + json" where
  "getitem0 v =
     (case v of
        JArr xs \<Rightarrow> (case xs of [] \<Rightarrow> Inl IndexError | x # _ \<Rightarrow> Inr x)
      | JStr s \<Rightarrow> (case s of [] \<Rightarrow> Inl IndexError | c # _ \<Rightarrow> Inr (JStr [c]))
      | JObj kvs \<Rightarrow> Inl (KeyError ''0'')
      | _ \<Rightarrow> Inl TypeError)"

text \<open>Truth value of an object, as \<^verbatim>\<open>if impact\<close> tests it.\<close>

definition truthy :: "json \<Rightarrow> bool" where
  "truthy v =
     (case v of
        JNull \<Rightarrow> False
      | JBool b \<Rightarrow> b
      | JInt i \<Rightarrow> i \<noteq> 0
      | JFloat f \<Rightarrow> f \<noteq> FNum 0
      | JStr s \<Rightarrow> s \<noteq> []
      | JArr xs \<Rightarrow> xs \<noteq> []
      | JObj kvs \<Rightarrow> kvs \<noteq> [])"

text \<open>
  What a \<^verbatim>\<open>for\<close> loop iterates over: a list's elements, a dict's keys, a str's
  characters; nothing else is iterable.
\<close>

definition iter :: "json \<Rightarrow> error + json list" where
  "iter v =
     (case v of
        JArr xs \<Rightarrow> Inr xs
      | JObj kvs \<Rightarrow> Inr (map (\<lambda>kv. JStr (fst kv)) kvs)
      | JStr s \<Rightarrow> Inr (map (\<lambda>c. JStr [c]) s)
      | _ \<Rightarrow> Inl TypeError)"

section \<open>Feed parser\<close>

text \<open>
  The body of the loop of parse_feed (app.py, lines 32 to 39): the row
  \<^verbatim>\<open>[cve_id, description, published_date, score]\<close> of one item, or the first
  exception in the order the source evaluates.
\<close>

definition parse_item :: "json \<Rightarrow> error + json list" where
  "parse_item item =
     bind (getitem item ''cve'') (\<lambda>cve.
     bind (getitem cve ''CVE_data_meta'') (\<lambda>meta.
     bind (getitem meta ''ID'') (\<lambda>cve_id.
     bind (getitem item ''cve'') (\<lambda>cve'.
     bind (getitem cve' ''description'') (\<lambda>descr.
     bind (getitem descr ''description_data'') (\<lambda>ddata.
     bind (getitem0 ddata) (\<lambda>d0.
     bind (getitem d0 ''value'') (\<lambda>description.
     bind (getitem item ''publishedDate'') (\<lambda>published_date.
     bind (dict_get item ''impact'' (JObj [])) (\<lambda>imp.
     bind (dict_get imp ''baseMetricV3'' JNull) (\<lambda>impact.
     bind (if truthy impact
           then bind (dict_get impact ''cvssV3'' (JObj [])) (\<lambda>cvss.
                  dict_get cvss ''baseScore'' (JStr ''N/A''))
           else Inr (JStr ''N/A'')) (\<lambda>score.
     Inr [cve_id, description, published_date, score]))))))))))))"

text \<open>The loop: rows are appended in order, and the first exception ends it.\<close>

fun parse_items :: "json list \<Rightarrow> error + json list list" where
  "parse_items [] = Inr []"
| "parse_items (item # items) =
     bind (parse_item item) (\<lambda>row.
     bind (parse_items items) (\<lambda>rows. Inr (row # rows)))"

text \<open>
  parse_feed (lines 28 to 40). \<^verbatim>\<open>json.loads\<close> is the standard library's; it is the
  parameter \<open>loads\<close>, JSONDecodeError for bytes that are not JSON.
\<close>

definition parse_feed :: "(string \<Rightarrow> error + json) \<Rightarrow> string \<Rightarrow> error + json list list" where
  "parse_feed loads json_data =
     bind (loads json_data) (\<lambda>data.
     bind (dict_get data ''CVE_Items'' (JArr [])) (\<lambda>items.
     bind (iter items) parse_items))"

section \<open>Record store\<close>

text \<open>
  A row of the store is the list of strings \<^verbatim>\<open>csv.reader\<close> yields for one line
  (a blank line yields the empty list). The store file is the list of its rows, the
  header row included; \<open>None\<close> is a file that does not exist. Quoting and line ends
  are the csv module's and are not modelled: a row written is the row read back,
  unless reading or writing it raises.
\<close>

type_synonym row = "string list"

type_synonym store = "row list option"

text \<open>
  Reading a row: \<^verbatim>\<open>csv.reader\<close> refuses a field of more than 131072 characters
  (its default field size limit) with \<^verbatim>\<open>_csv.Error\<close>.
\<close>

definition field_limit :: nat where
  "field_limit = 131072"

definition csv_read :: "row \<Rightarrow> error + row" where
  "csv_read r = (if list_all (\<lambda>c. length c \<le> field_limit) r then Inr r else Inl CsvError)"

text \<open>
  \<^verbatim>\<open>writer.writerows\<close> on a file opened with \<^verbatim>\<open>encoding='utf-8'\<close>: the rows are
  written in order, and a row with a text the codec cannot encode (\<open>enc\<close> is false
  for it: a str with a lone surrogate, which \<^verbatim>\<open>json.loads\<close> can return) raises
  UnicodeEncodeError at its write, with the rows before it in the file.
\<close>

fun writerows :: "(string \<Rightarrow> bool) \<Rightarrow> row list \<Rightarrow> row list \<Rightarrow> (error + unit) \<times> row list" where
  "writerows enc written [] = (Inr (), written)"
| "writerows enc written (r # rs) =
     (if list_all enc r then writerows enc (written @ [r]) rs
      else (Inl UnicodeEncodeError, written))"

text \<open>\<^verbatim>\<open>row[i]\<close> on a list: IndexError out of range.\<close>

definition cell :: "'a list \<Rightarrow> nat \<Rightarrow> error + 'a" where
  "cell r i = (if i < length r then Inr (r ! i) else Inl IndexError)"

text \<open>A loop or comprehension whose body may raise: the first exception ends it.\<close>

fun mapE :: "('a \<Rightarrow> error + 'b) \<Rightarrow> 'a list \<Rightarrow> error + 'b list" where
  "mapE f [] = Inr []"
| "mapE f (x # xs) = bind (f x) (\<lambda>y. bind (mapE f xs) (\<lambda>ys. Inr (y # ys)))"

fun filterE :: "('a \<Rightarrow> error + bool) \<Rightarrow> 'a list \<Rightarrow> error + 'a list" where
  "filterE p [] = Inr []"
| "filterE p (x # xs) =
     bind (p x) (\<lambda>b. bind (filterE p xs) (\<lambda>ys. Inr (if b then x # ys else ys)))"

text \<open>
  \<^verbatim>\<open>v in existing_ids\<close> for a set of str: a list or dict is unhashable (TypeError), a
  str is looked up, any other object equals no str.
\<close>

definition in_ids :: "json \<Rightarrow> string set \<Rightarrow> error + bool" where
  "in_ids v ids =
     (case v of
        JStr s \<Rightarrow> Inr (s \<in> ids)
      | JArr xs \<Rightarrow> Inl TypeError
      | JObj kvs \<Rightarrow> Inl TypeError
      | _ \<Rightarrow> Inr False)"

text \<open>
  The text \<^verbatim>\<open>csv.writer\<close> stores for a cell: a str as it is, None as the empty
  string, everything else through Python's \<^verbatim>\<open>str\<close> (the parameter \<open>str_of\<close>).
\<close>

definition cell_text :: "(json \<Rightarrow> string) \<Rightarrow> json \<Rightarrow> string" where
  "cell_text str_of v = (case v of JStr s \<Rightarrow> s | JNull \<Rightarrow> [] | _ \<Rightarrow> str_of v)"

definition header :: row where
  "header = [''CVE ID'', ''Description'', ''Published Date'', ''CVSS v3.1 Score'']"

text \<open>
  The first part of save_to_csv (lines 44 to 52): the header row is read and skipped,
  then each row is read and its first cell taken.
\<close>

definition read_existing_ids :: "store \<Rightarrow> error + string list" where
  "read_existing_ids file =
     (case file of
        None \<Rightarrow> Inr []
      | Some rows \<Rightarrow>
          bind (mapE csv_read (take 1 rows)) (\<lambda>skipped.
            mapE (\<lambda>r. bind (csv_read r) (\<lambda>row. cell row 0)) (drop 1 rows)))"

text \<open>
  save_to_csv (lines 43 to 65). The file named by \<^verbatim>\<open>filename\<close> is passed as its
  content and returned as the call leaves it. An exception while the store is read or
  the batch is filtered comes before the file is opened for appending; an exception
  in \<^verbatim>\<open>writerows\<close> leaves the header, if the file is new, and the rows written before
  it (the header is ASCII, which UTF-8 encodes).
\<close>

definition save_to_csv ::
  "(string \<Rightarrow> bool) \<Rightarrow> (json \<Rightarrow> string) \<Rightarrow> json list list \<Rightarrow> store \<Rightarrow> (error + nat) \<times> store" where
  "save_to_csv enc str_of new_data file =
     (case read_existing_ids file of
        Inl e \<Rightarrow> (Inl e, file)
      | Inr existing_ids \<Rightarrow>
          (case filterE (\<lambda>row. bind (cell row 0) (\<lambda>v.
                          bind (in_ids v (set existing_ids)) (\<lambda>b. Inr (\<not> b)))) new_data of
             Inl e \<Rightarrow> (Inl e, file)
           | Inr unique_data \<Rightarrow>
               (let write_header = (file = None);
                    old = (case file of None \<Rightarrow> [] | Some rows \<Rightarrow> rows)
                in case writerows enc (old @ (if write_header then [header] else []))
                          (map (map (cell_text str_of)) unique_data) of
                     (Inl e, written) \<Rightarrow> (Inl e, Some written)
                   | (Inr u, written) \<Rightarrow> (Inr (length unique_data), Some written))))"

text \<open>
  load_csv (lines 68 to 75): the rows after the first, none for a missing file; the
  reader raises as in save_to_csv.
\<close>

definition load_csv :: "store \<Rightarrow> error + row list" where
  "load_csv file =
     (case file of
        None \<Rightarrow> Inr []
      | Some rows \<Rightarrow>
          bind (mapE csv_read (take 1 rows)) (\<lambda>skipped. mapE csv_read (drop 1 rows)))"

text \<open>
  The stores and batches of the data model. A store is a file that does not exist, or
  one that starts with a header row and whose later rows all have an identifier cell
  (\<open>store_ok\<close>); every record of a batch starts with its identifier, a str
  (\<open>batch_ok\<close>). \<open>row_id\<close> is the identifier of a record, \<open>file_rows\<close> the rows of
  the file after the header and \<open>store_ids\<close> their identifiers, in file order.
\<close>

definition store_ok :: "store \<Rightarrow> bool" where
  "store_ok file =
     (case file of None \<Rightarrow> True | Some rows \<Rightarrow> rows \<noteq> [] \<and> list_all (\<lambda>r. r \<noteq> []) (tl rows))"

definition row_id :: "json list \<Rightarrow> string" where
  "row_id row = (case row of JStr s # cells \<Rightarrow> s | _ \<Rightarrow> [])"

definition batch_ok :: "json list list \<Rightarrow> bool" where
  "batch_ok new_data = list_all (\<lambda>row. case row of JStr s # cells \<Rightarrow> True | _ \<Rightarrow> False) new_data"

definition file_rows :: "store \<Rightarrow> row list" where
  "file_rows file = (case file of None \<Rightarrow> [] | Some rows \<Rightarrow> drop 1 rows)"

definition store_ids :: "store \<Rightarrow> string list" where
  "store_ids file = map hd (file_rows file)"




text \<open>A sequence of save_to_csv calls, one per batch, each on the file the last one left.\<close>

fun appends ::
  "(string \<Rightarrow> bool) \<Rightarrow> (json \<Rightarrow> string) \<Rightarrow> json list list list \<Rightarrow> store \<Rightarrow> store" where
  "appends enc str_of [] file = file"
| "appends enc str_of (new_data # batches) file =
     appends enc str_of batches (snd (save_to_csv enc str_of new_data file))"

section \<open>Refresh\<close>

text \<open>
  The files of the application: the store and the timestamp file. Writing the
  timestamp can fail in two ways: \<open>ts_locked\<close>, the file refuses to be opened for
  writing (\<^verbatim>\<open>open\<close> raises OSError, the file as it was); \<open>ts_write_fails\<close>, the
  file opens, which empties it, and the write then raises OSError.
\<close>

record fs =
  csv_file :: store
  ts_file :: "string option"
  ts_locked :: bool
  ts_write_fails :: bool








section \<open>Query engine\<close>

text \<open>\<^verbatim>\<open>s <= n\<close> for a float s and an int n: false for nan and inf.\<close>

definition fle :: "pyfloat \<Rightarrow> int \<Rightarrow> bool" where
  "fle s n =
     (case s of FNum r \<Rightarrow> r \<le> of_int n | FInf \<Rightarrow> False | FNegInf \<Rightarrow> True | FNaN \<Rightarrow> False)"

text \<open>
  get_score_bucket (lines 123 to 136). \<open>fl\<close> is Python's \<^verbatim>\<open>float\<close> on a str,
  \<open>None\<close> when it raises ValueError, which the bare \<^verbatim>\<open>except\<close> turns into 9. The
  result \<open>None\<close> is Python's None: no branch of the chain returned.
\<close>

definition get_score_bucket :: "(string \<Rightarrow> pyfloat option) \<Rightarrow> string \<Rightarrow> int option" where
  "get_score_bucket fl score =
     (case fl score of
        None \<Rightarrow> Some 9
      | Some s \<Rightarrow>
          if fle s 2 then Some 0
          else if fle s 3 then Some 1
          else if fle s 4 then Some 2
          else if fle s 5 then Some 3
          else if fle s 6 then Some 4
          else if fle s 7 then Some 5
          else if fle s 8 then Some 6
          else if fle s 9 then Some 7
          else if fle s 10 then Some 8
          else None)"

text \<open>
  \<^verbatim>\<open>list.sort(key=..., reverse=...)\<close>. CPython computes every key first, sorts the
  list stably by key, and for \<^verbatim>\<open>reverse=True\<close> reverses the list before and after
  the sort. A key \<open>None\<close> is Python's None, which \<^verbatim>\<open><\<close> refuses with TypeError;
  a list of fewer than two elements is never compared.
\<close>

definition sort_by_keys :: "('k::linorder) list \<Rightarrow> 'a list \<Rightarrow> bool \<Rightarrow> 'a list" where
  "sort_by_keys ks xs reverse =
     map snd (if reverse then rev (sort_key fst (rev (zip ks xs)))
              else sort_key fst (zip ks xs))"

definition list_sort :: "('a \<Rightarrow> error + ('k::linorder) option) \<Rightarrow> bool \<Rightarrow> 'a list \<Rightarrow> error + 'a list" where
  "list_sort key reverse xs =
     bind (mapE key xs) (\<lambda>keys.
       case those keys of
         Some ks \<Rightarrow> Inr (sort_by_keys ks xs reverse)
       | None \<Rightarrow> if length xs < 2 then Inr xs else Inl TypeError)"

text \<open>\<^verbatim>\<open>q in s\<close> for two str: q occurs in s.\<close>

fun contains :: "string \<Rightarrow> string \<Rightarrow> bool" where
  "contains q [] = (q = [])"
| "contains q (c # cs) = (take (length q) (c # cs) = q \<or> contains q cs)"

text \<open>\<^verbatim>\<open>xs[a:b]\<close>: a negative index counts from the end, and both are clamped.\<close>

definition slice_index :: "nat \<Rightarrow> int \<Rightarrow> nat" where
  "slice_index n i = (if i < 0 then nat (max 0 (int n + i)) else min n (nat i))"

definition py_slice :: "'a list \<Rightarrow> int \<Rightarrow> int \<Rightarrow> 'a list" where
  "py_slice xs a b =
     (let lo = slice_index (length xs) a; hi = slice_index (length xs) b
      in take (hi - lo) (drop lo xs))"

text \<open>
  The builtins index applies to request text: \<^verbatim>\<open>int\<close> and \<^verbatim>\<open>float\<close> on a str
  (\<open>None\<close> for ValueError), \<^verbatim>\<open>str.lower\<close> and \<^verbatim>\<open>str.strip\<close>.
\<close>

record pylib =
  py_int :: "string \<Rightarrow> int option"
  py_float :: "string \<Rightarrow> pyfloat option"
  py_lower :: "string \<Rightarrow> string"
  py_strip :: "string \<Rightarrow> string"

text \<open>\<^verbatim>\<open>request.args.get(k, default)\<close>: the first value sent for the key.\<close>

definition args_get :: "(string \<times> string) list \<Rightarrow> string \<Rightarrow> string \<Rightarrow> string" where
  "args_get args k dflt = (case map_of args k of None \<Rightarrow> dflt | Some v \<Rightarrow> v)"

text \<open>\<^verbatim>\<open>int(request.args.get('page', 1))\<close> (line 108).\<close>

definition page_arg :: "pylib \<Rightarrow> (string \<times> string) list \<Rightarrow> error + int" where
  "page_arg lib args =
     (case map_of args ''page'' of
        None \<Rightarrow> Inr 1
      | Some s \<Rightarrow> (case py_int lib s of None \<Rightarrow> Inl ValueError | Some n \<Rightarrow> Inr n))"

text \<open>load_last_updated (lines 82 to 87).\<close>

definition load_last_updated :: "pylib \<Rightarrow> fs \<Rightarrow> string" where
  "load_last_updated lib s = (case ts_file s of Some t \<Rightarrow> py_strip lib t | None \<Rightarrow> ''Never'')"

text \<open>The two filters (lines 117 to 121).\<close>

definition filter_cves :: "pylib \<Rightarrow> string \<Rightarrow> string \<Rightarrow> row list \<Rightarrow> error + row list" where
  "filter_cves lib query year_filter all_cves =
     bind (if query \<noteq> []
           then filterE (\<lambda>row. bind (cell row 1) (\<lambda>d. Inr (contains query (py_lower lib d)))) all_cves
           else Inr all_cves) (\<lambda>all_cves.
     if year_filter \<noteq> []
     then filterE (\<lambda>row. bind (cell row 2) (\<lambda>d. Inr (take 4 d = year_filter))) all_cves
     else Inr all_cves)"

text \<open>The sort (lines 138 to 141).\<close>

definition sort_cves :: "pylib \<Rightarrow> string \<Rightarrow> string \<Rightarrow> row list \<Rightarrow> error + row list" where
  "sort_cves lib sort_by sort_order all_cves =
     (if sort_by = ''score''
      then list_sort (\<lambda>x. bind (cell x 3) (\<lambda>sc. Inr (get_score_bucket (py_float lib) sc)))
             (sort_order = ''desc'') all_cves
      else list_sort (\<lambda>x. bind (cell x 2) (\<lambda>d. Inr (Some d)))
             (sort_order = ''desc'') all_cves)"

text \<open>Pagination (lines 143 to 146), with \<^verbatim>\<open>per_page = 100\<close>.\<close>

definition paginate :: "row list \<Rightarrow> int \<Rightarrow> row list \<times> int" where
  "paginate all_cves page =
     (let per_page = 100;
          total = int (length all_cves);
          start = (page - 1) * per_page
      in (py_slice all_cves start (start + per_page), (total + per_page - 1) div per_page))"

text \<open>The keyword arguments index hands to \<^verbatim>\<open>render_template\<close>.\<close>

record view =
  cves :: "row list"
  last_updated :: string
  query :: string
  page :: int
  total_pages :: int
  sort_by :: string
  sort_order :: string
  year_filter :: string

text \<open>index (lines 105 to 158), in the order the source evaluates.\<close>

definition index :: "pylib \<Rightarrow> fs \<Rightarrow> (string \<times> string) list \<Rightarrow> error + view" where
  "index lib s args =
     (let q = py_lower lib (args_get args ''q'' []);
          year = args_get args ''year'' []
      in bind (page_arg lib args) (\<lambda>pg.
         let sort = args_get args ''sort'' ''date'';
             order = args_get args ''order'' ''desc'';
             order = args_get args ''order'' ''desc''
         in bind (load_csv (csv_file s)) (\<lambda>all_cves.
            let updated = load_last_updated lib s
            in bind (filter_cves lib q year all_cves) (\<lambda>all_cves.
               bind (sort_cves lib sort order all_cves) (\<lambda>all_cves.
                 (case paginate all_cves pg of
                    (paginated_cves, pages) \<Rightarrow>
                      Inr \<lparr>cves = paginated_cves, last_updated = updated, query = q,
                           page = pg, total_pages = pages, sort_by = sort,
                           sort_order = order, year_filter = year\<rparr>))))))"

section \<open>Concrete inputs\<close>

text \<open>
  Readers for concrete runs. \<open>dec_int\<close> reads an optionally signed run of ASCII
  digits and \<open>dec_float\<close> such a run with an optional fraction, as Python's
  \<^verbatim>\<open>int\<close> and \<^verbatim>\<open>float\<close> do; every other text is refused here. \<open>dec_float\<close> gives
  the decimal value itself, where Python gives the double nearest to it. In
  \<open>sample_lib\<close>, \<^verbatim>\<open>str.lower\<close> and \<^verbatim>\<open>str.strip\<close> are the identity: the concrete
  requests carry no query text, and no timestamp is read.
\<close>

definition digit_val :: "char \<Rightarrow> nat option" where
  "digit_val c =
     map_of [(CHR ''0'', 0), (CHR ''1'', 1), (CHR ''2'', 2), (CHR ''3'', 3), (CHR ''4'', 4),
             (CHR ''5'', 5), (CHR ''6'', 6), (CHR ''7'', 7), (CHR ''8'', 8), (CHR ''9'', 9)] c"

fun dec_digits :: "nat \<Rightarrow> string \<Rightarrow> nat option" where
  "dec_digits acc [] = Some acc"
| "dec_digits acc (c # cs) =
     (case digit_val c of None \<Rightarrow> None | Some d \<Rightarrow> dec_digits (10 * acc + d) cs)"

definition dec_nat :: "string \<Rightarrow> nat option" where
  "dec_nat s = (if s = [] then None else dec_digits 0 s)"

definition dec_int :: "string \<Rightarrow> int option" where
  "dec_int s =
     (case s of
        [] \<Rightarrow> None
      | c # cs \<Rightarrow>
          if c = CHR ''-'' then map_option (\<lambda>n. - int n) (dec_nat cs)
          else if c = CHR ''+'' then map_option int (dec_nat cs)
          else map_option int (dec_nat s))"

definition dec_unsigned :: "string \<Rightarrow> rat option" where
  "dec_unsigned s =
     (let ip = takeWhile (\<lambda>c. c \<noteq> CHR ''.'') s;
          rest = dropWhile (\<lambda>c. c \<noteq> CHR ''.'') s
      in case dec_nat ip of
           None \<Rightarrow> None
         | Some a \<Rightarrow>
             if rest = [] then Some (of_nat a)
             else (case dec_nat (drop 1 rest) of
                     None \<Rightarrow> None
                   | Some b \<Rightarrow> Some (of_nat a + of_nat b / 10 ^ length (drop 1 rest))))"

definition dec_float :: "string \<Rightarrow> pyfloat option" where
  "dec_float s =
     (case s of
        [] \<Rightarrow> None
      | c # cs \<Rightarrow>
          if c = CHR ''-'' then map_option (\<lambda>r. FNum (- r)) (dec_unsigned cs)
          else if c = CHR ''+'' then map_option FNum (dec_unsigned cs)
          else map_option FNum (dec_unsigned s))"

definition sample_lib :: pylib where
  "sample_lib = \<lparr>py_int = dec_int, py_float = dec_float, py_lower = (\<lambda>s. s), py_strip = (\<lambda>s. s)\<rparr>"

text \<open>
  A feed of one entry, as text and as \<^verbatim>\<open>json.loads\<close> decodes it (\<open>sample_item i d\<close>
  is the entry with identifier \<open>i\<close> and description \<open>d\<close>); the record
  parse_feed makes of an entry with identifier \<open>i\<close> (\<open>sample_row\<close>) and the row the
  store holds for it (\<open>sample_text\<close>); Python's \<^verbatim>\<open>str\<close> on the one value of these runs
  that is not a str, the float 9.5.
\<close>

definition sample_str :: "json \<Rightarrow> string" where
  "sample_str v = (if v = JFloat (FNum (19 / 2)) then ''9.5'' else ''?'')"

definition sample_row :: "string \<Rightarrow> json list" where
  "sample_row i = [JStr i, JStr ''d'', JStr ''2023-01-01'', JFloat (FNum (19 / 2))]"

definition sample_text :: "string \<Rightarrow> row" where
  "sample_text i = [i, ''d'', ''2023-01-01'', ''9.5'']"

definition sample_feed_text :: string where
  "sample_feed_text = ''{\"CVE_Items\": [{\"cve\": {\"CVE_data_meta\": {\"ID\": \"CVE-A\"}, \"description\": {\"description_data\": [{\"value\": \"d\"}]}}, \"publishedDate\": \"2023-01-01\", \"impact\": {\"baseMetricV3\": {\"cvssV3\": {\"baseScore\": 9.5}}}}]}''"

definition sample_item :: "string \<Rightarrow> string \<Rightarrow> json" where
  "sample_item i d =
     JObj [(''cve'', JObj [(''CVE_data_meta'', JObj [(''ID'', JStr i)]),
                           (''description'', JObj [(''description_data'',
                              JArr [JObj [(''value'', JStr d)]])])]),
           (''publishedDate'', JStr ''2023-01-01''),
           (''impact'', JObj [(''baseMetricV3'',
              JObj [(''cvssV3'', JObj [(''baseScore'', JFloat (FNum (19 / 2)))])])])]"

definition sample_feed :: json where
  "sample_feed = JObj [(''CVE_Items'', JArr [sample_item ''CVE-A'' ''d''])]"

text \<open>
  A decoder for concrete runs: \<^verbatim>\<open>json.loads\<close> on three documents, every other text
  taken as undecodable.
\<close>

definition sample_loads :: "string \<Rightarrow> error + json" where
  "sample_loads s =
     (if s = ''{}'' then Inr (JObj [])
      else if s = ''{\"CVE_Items\": []}'' then Inr (JObj [(''CVE_Items'', JArr [])])
      else if s = sample_feed_text then Inr sample_feed
      else Inl JSONDecodeError)"

text \<open>
  Two texts the csv layer refuses: \<open>big_text\<close> is one character over the reader's
  field limit; \<open>surrogate_text\<close> stands for the one-character str that \<^verbatim>\<open>json.loads\<close>
  returns for the escape of the lone surrogate U+D800, which a \<open>string\<close> cannot hold
  and which \<open>sample_enc\<close>, the codec of the concrete runs, refuses as UTF-8 does.
\<close>

definition big_text :: string where
  "big_text = replicate 131073 (CHR ''x'')"

definition surrogate_text :: string where
  "surrogate_text = ''<U+D800>''"

definition sample_enc :: "string \<Rightarrow> bool" where
  "sample_enc s = (s \<noteq> surrogate_text)"


definition big_row_text :: row where
  "big_row_text = [''A'', big_text, ''2023-01-01'', ''9.5'']"




text \<open>
  No file at all, with a timestamp file that can be written; and a store of two
  records, never refreshed, for concrete runs of index.
\<close>

definition no_files :: fs where
  "no_files = \<lparr>csv_file = None, ts_file = None, ts_locked = False, ts_write_fails = False\<rparr>"

definition sample_fs :: fs where
  "sample_fs = no_files\<lparr>csv_file := Some [header, [''CVE-1'', ''d'', ''2023-01-01'', ''5.0''],
                                            [''CVE-2'', ''d'', ''2022-05-05'', ''N/A'']]\<rparr>"

section \<open>Properties of the feed parser\<close>

lemma bind_Inl [simp]: "bind (Inl e) f = Inl e"
  by (simp add: bind_def)

lemma bind_Inr [simp]: "bind (Inr x) f = f x"
  by (simp add: bind_def)

text \<open>
  C1, as the claim states it, fails: the document \<^verbatim>\<open>{}\<close> is a JSON object without
  the key "CVE_Items", and parse_feed returns the empty list for it, raising nothing.
\<close>

theorem parse_feed_missing_key_counterexample:
  "parse_feed sample_loads ''{}'' = Inr []"
  by (simp add: parse_feed_def sample_loads_def dict_get_def iter_def)

text \<open>
  C1, amended: for every input that decodes to a JSON object without the key
  "CVE_Items", parse_feed succeeds with the empty record sequence (the lookup defaults
  to the empty list), exactly as for an input whose key maps to the empty list; an
  input that does not decode fails with the decoder's error.
\<close>

theorem parse_feed_empty:
  "(loads b = Inr (JObj kvs) \<and> map_of kvs ''CVE_Items'' = None
      \<longrightarrow> parse_feed loads b = Inr []) \<and>
   (loads b = Inr (JObj kvs) \<and> map_of kvs ''CVE_Items'' = Some (JArr [])
      \<longrightarrow> parse_feed loads b = Inr []) \<and>
   (loads b = Inl e \<longrightarrow> parse_feed loads b = Inl e)"
  by (simp add: parse_feed_def dict_get_def iter_def)

theorem parse_feed_empty_witness:
  "parse_feed sample_loads ''{}'' = Inr [] \<and>
   parse_feed sample_loads ''{\"CVE_Items\": []}'' = Inr [] \<and>
   parse_feed sample_loads ''not json'' = Inl JSONDecodeError"
proof -
  have a: "sample_loads ''{}'' = Inr (JObj []) \<and> map_of ([] :: (string \<times> json) list) ''CVE_Items'' = None"
    by (simp add: sample_loads_def)
  have b: "sample_loads ''{\"CVE_Items\": []}'' = Inr (JObj [(''CVE_Items'', JArr [])]) \<and>
           map_of [(''CVE_Items'', JArr [])] ''CVE_Items'' = Some (JArr [])"
    by (simp add: sample_loads_def)
  have c: "sample_loads ''not json'' = Inl JSONDecodeError"
    by (simp add: sample_loads_def sample_feed_text_def)
  from a parse_feed_empty [of sample_loads "''{}''" "[]"]
  have 1: "parse_feed sample_loads ''{}'' = Inr []" by blast
  from b parse_feed_empty [of sample_loads "''{\"CVE_Items\": []}''" "[(''CVE_Items'', JArr [])]"]
  have 2: "parse_feed sample_loads ''{\"CVE_Items\": []}'' = Inr []" by blast
  from c parse_feed_empty [of sample_loads "''not json''" _ JSONDecodeError]
  have 3: "parse_feed sample_loads ''not json'' = Inl JSONDecodeError" by blast
  from 1 2 3 show ?thesis by blast
qed

section \<open>Properties of the query engine\<close>

subsection \<open>Auxiliary facts\<close>

lemma bind_eq_Inr: "bind m f = Inr y \<longleftrightarrow> (\<exists>x. m = Inr x \<and> f x = Inr y)"
  by (cases m) simp_all

lemma mapE_Inr: "mapE f xs = Inr ys \<Longrightarrow> list_all2 (\<lambda>x y. f x = Inr y) xs ys"
  by (induction xs arbitrary: ys) (auto simp: bind_eq_Inr)

lemma mapE_total: "(\<And>x. x \<in> set xs \<Longrightarrow> f x = Inr (g x)) \<Longrightarrow> mapE f xs = Inr (map g xs)"
  by (induction xs) simp_all

lemma filterE_total:
  "(\<And>x. x \<in> set xs \<Longrightarrow> p x = Inr (q x)) \<Longrightarrow> filterE p xs = Inr (filter q xs)"
  by (induction xs) simp_all

lemma those_eq_None: "those ks = None \<longleftrightarrow> None \<in> set ks"
  by (induction ks) (auto split: option.splits)

lemma those_eq_Some: "those ks = Some vs \<longleftrightarrow> ks = map Some vs"
  by (induction ks arbitrary: vs) (auto split: option.splits)

lemma insort_key_decorate:
  "insort_key fst (k x, x) (map (\<lambda>x. (k x, x)) ys) = map (\<lambda>x. (k x, x)) (insort_key k x ys)"
  by (induction ys) simp_all

lemma sort_key_decorate:
  "sort_key fst (map (\<lambda>x. (k x, x)) xs) = map (\<lambda>x. (k x, x)) (sort_key k xs)"
  by (induction xs) (simp_all add: insort_key_decorate)

lemma sort_by_keys_eq:
  "sort_by_keys (map k xs) xs reverse =
     (if reverse then rev (sort_key k (rev xs)) else sort_key k xs)"
proof -
  have z: "zip (map k xs) xs = map (\<lambda>x. (k x, x)) xs"
    by (induction xs) simp_all
  have s: "map snd (map (\<lambda>x. (k x, x)) ys) = ys" for ys
    by (simp add: comp_def)
  have a: "map snd (sort_key fst (zip (map k xs) xs)) = sort_key k xs"
    unfolding z sort_key_decorate s ..
  have "rev (zip (map k xs) xs) = map (\<lambda>x. (k x, x)) (rev xs)"
    unfolding z by (rule rev_map)
  then have "map snd (rev (sort_key fst (rev (zip (map k xs) xs))))
             = map snd (rev (map (\<lambda>x. (k x, x)) (sort_key k (rev xs))))"
    by (simp only: sort_key_decorate)
  also have "\<dots> = map snd (map (\<lambda>x. (k x, x)) (rev (sort_key k (rev xs))))"
    by (simp only: rev_map)
  also have "\<dots> = rev (sort_key k (rev xs))"
    by (rule s)
  finally show ?thesis
    using a by (simp add: sort_by_keys_def)
qed

lemma fle_cases:
  "get_score_bucket fl s = None \<longleftrightarrow> (\<exists>f. fl s = Some f \<and> \<not> fle f 10)"
  apply (cases "fl s")
   apply (simp add: get_score_bucket_def)
  subgoal for f
    by (cases f) (auto simp: get_score_bucket_def fle_def)
  done

lemma bucket_range: "get_score_bucket fl s = Some b \<Longrightarrow> 0 \<le> b \<and> b \<le> 9"
  by (auto simp: get_score_bucket_def split: option.splits if_splits)


lemma list_sort_Inr:
  assumes "list_sort key r xs = Inr ys"
  shows "(\<exists>k. (\<forall>x\<in>set xs. key x = Inr (Some (k x))) \<and>
              ys = (if r then rev (sort_key k (rev xs)) else sort_key k xs))
         \<or> (length xs < 2 \<and> ys = xs \<and> (\<forall>x\<in>set xs. \<exists>v. key x = Inr v))"
proof -
  from assms obtain keys where m: "mapE key xs = Inr keys"
    and c: "(case those keys of Some ks \<Rightarrow> Inr (sort_by_keys ks xs r)
             | None \<Rightarrow> if length xs < 2 then Inr xs else Inl TypeError) = Inr ys"
    by (auto simp: list_sort_def bind_eq_Inr)
  from m have la: "list_all2 (\<lambda>x y. key x = Inr y) xs keys"
    by (rule mapE_Inr)
  show ?thesis
  proof (cases "those keys")
    case None
    with c have "length xs < 2 \<and> ys = xs"
      by (auto split: if_splits)
    moreover from la have "\<forall>x\<in>set xs. \<exists>v. key x = Inr v"
      by (auto simp: list_all2_conv_all_nth in_set_conv_nth)
    ultimately show ?thesis by blast
  next
    case (Some ks)
    then have keys: "keys = map Some ks"
      by (simp add: those_eq_Some)
    define k where "k x = (case key x of Inr (Some v) \<Rightarrow> v)" for x
    from la keys have la': "list_all2 (\<lambda>x v. key x = Inr (Some v)) xs ks"
      by (simp add: list_all2_map2)
    then have all: "\<forall>x\<in>set xs. key x = Inr (Some (k x))"
      by (auto simp: list_all2_conv_all_nth in_set_conv_nth k_def)
    from la' have "ks = map k xs"
      by (induction rule: list_all2_induct) (auto simp: k_def)
    with Some c have "ys = (if r then rev (sort_key k (rev xs)) else sort_key k xs)"
      by (simp add: sort_by_keys_eq)
    with all show ?thesis by blast
  qed
qed

lemma list_sort_total:
  assumes "\<And>x. x \<in> set xs \<Longrightarrow> key x = Inr (Some (k x))"
  shows "list_sort key r xs = Inr (if r then rev (sort_key k (rev xs)) else sort_key k xs)"
proof -
  have "mapE key xs = Inr (map (\<lambda>x. Some (k x)) xs)"
    using assms by (rule mapE_total)
  moreover have "those (map (\<lambda>x. Some (k x)) xs) = Some (map k xs)"
    by (simp add: those_eq_Some)
  ultimately show ?thesis
    by (simp add: list_sort_def sort_by_keys_eq)
qed

lemma list_sort_fails:
  assumes "\<And>x. x \<in> set xs \<Longrightarrow> key x = Inr (k x)" and "a \<in> set xs" and "k a = None"
    and "2 \<le> length xs"
  shows "list_sort key r xs = Inl TypeError"
proof -
  have "mapE key xs = Inr (map k xs)"
    using assms(1) by (rule mapE_total)
  moreover have "those (map k xs) = None"
    using assms(2,3) by (force simp: those_eq_None)
  ultimately show ?thesis
    using assms(4) by (simp add: list_sort_def)
qed

lemma srt_stable:
  "filter (\<lambda>x. k x = v) (if r then rev (sort_key k (rev xs)) else sort_key k xs)
     = filter (\<lambda>x. k x = v) xs"
proof -
  have "filter (\<lambda>x. k x = v) (rev (sort_key k (rev xs)))
        = rev (filter (\<lambda>x. k x = v) (sort_key k (rev xs)))"
    by (rule rev_filter [symmetric])
  also have "\<dots> = rev (filter (\<lambda>x. k x = v) (rev xs))"
    by (simp only: sort_key_stable)
  also have "\<dots> = filter (\<lambda>x. k x = v) xs"
    by (simp add: rev_filter)
  finally show ?thesis
    by (simp add: sort_key_stable)
qed

lemma srt_sorted:
  "sorted_wrt (\<lambda>a b. if r then k b \<le> k a else k a \<le> k b)
     (if r then rev (sort_key k (rev xs)) else sort_key k xs)"
proof (cases r)
  case True
  have "sorted (map k (sort_key k (rev xs)))" by simp
  then have "sorted_wrt (\<lambda>a b. k a \<le> k b) (sort_key k (rev xs))"
    by (simp add: sorted_map)
  then have "sorted_wrt (\<lambda>a b. k b \<le> k a) (rev (sort_key k (rev xs)))"
    by (simp add: sorted_wrt_rev)
  with True show ?thesis by simp
next
  case False
  have "sorted (map k (sort_key k xs))" by simp
  then have "sorted_wrt (\<lambda>a b. k a \<le> k b) (sort_key k xs)"
    by (simp add: sorted_map)
  with False show ?thesis by simp
qed

lemma sorted_wrt_short: "length xs < 2 \<Longrightarrow> sorted_wrt P xs"
  by (cases xs) (auto simp: less_Suc_eq)

lemma cell_eq: "cell r i = Inr v \<longleftrightarrow> i < length r \<and> v = r ! i"
  by (auto simp: cell_def)

lemma list_sort_props:
  fixes g :: "'a \<Rightarrow> ('k::linorder) option"
  assumes s: "list_sort key r xs = Inr ys"
    and g: "\<And>x v. x \<in> set xs \<Longrightarrow> key x = Inr v \<Longrightarrow> v = g x"
  shows "mset ys = mset xs \<and>
         filter (\<lambda>x. g x = b) ys = filter (\<lambda>x. g x = b) xs \<and>
         sorted_wrt (\<lambda>x y. \<exists>i j. g x = Some i \<and> g y = Some j \<and> (if r then j \<le> i else i \<le> j)) ys"
proof -
  from list_sort_Inr [OF s] show ?thesis
  proof (elim disjE exE conjE)
    fix k
    assume k: "\<forall>x\<in>set xs. key x = Inr (Some (k x))"
      and ys: "ys = (if r then rev (sort_key k (rev xs)) else sort_key k xs)"
    from k g have gk: "\<And>x. x \<in> set xs \<Longrightarrow> g x = Some (k x)"
      by metis
    have set: "set ys = set xs"
      by (simp add: ys)
    have m: "mset ys = mset xs"
      by (simp add: ys)
    have f: "filter (\<lambda>x. g x = b) ys = filter (\<lambda>x. g x = b) xs"
    proof (cases b)
      case None
      have "filter (\<lambda>x. g x = b) ys = []" "filter (\<lambda>x. g x = b) xs = []"
        using gk set None by (auto simp: filter_empty_conv)
      then show ?thesis by simp
    next
      case (Some v)
      have "filter (\<lambda>x. g x = b) ys = filter (\<lambda>x. k x = v) ys"
        by (rule filter_cong) (auto simp: gk set Some)
      also have "\<dots> = filter (\<lambda>x. k x = v) xs"
        unfolding ys by (rule srt_stable)
      also have "\<dots> = filter (\<lambda>x. g x = b) xs"
        by (rule filter_cong) (auto simp: gk Some)
      finally show ?thesis .
    qed
    have "sorted_wrt (\<lambda>a b. if r then k b \<le> k a else k a \<le> k b) ys"
      unfolding ys by (rule srt_sorted)
    then have "sorted_wrt (\<lambda>x y. \<exists>i j. g x = Some i \<and> g y = Some j \<and> (if r then j \<le> i else i \<le> j)) ys"
      by (rule sorted_wrt_mono_rel [rotated]) (auto simp: gk set)
    with m f show ?thesis by blast
  next
    assume "length xs < 2" "ys = xs"
    then show ?thesis
      by (simp add: sorted_wrt_short)
  qed
qed

lemma score_key:
  "bind (cell x 3) (\<lambda>sc. Inr (get_score_bucket fl sc)) = Inr v \<Longrightarrow> v = get_score_bucket fl (x ! 3)"
  by (auto simp: bind_eq_Inr cell_eq)

lemma date_key:
  "bind (cell x 2) (\<lambda>d. Inr (Some d)) = Inr v \<Longrightarrow> v = Some (x ! 2)"
  by (auto simp: bind_eq_Inr cell_eq)

lemma score_key_total:
  "4 \<le> length x \<Longrightarrow> bind (cell x 3) (\<lambda>sc. Inr (get_score_bucket fl sc)) = Inr (get_score_bucket fl (x ! 3))"
  by (simp add: cell_def)

lemma date_key_total:
  "3 \<le> length x \<Longrightarrow> bind (cell x 2) (\<lambda>d. Inr (Some d)) = Inr (Some (x ! 2))"
  by (simp add: cell_def)


lemma nine_last:
  fixes g :: "'a \<Rightarrow> int option"
  assumes "sorted_wrt (\<lambda>x y. \<exists>i j. g x = Some i \<and> g y = Some j \<and> i \<le> j) ys"
    and "\<And>x i. x \<in> set ys \<Longrightarrow> g x = Some i \<Longrightarrow> i \<le> 9"
  shows "ys = filter (\<lambda>x. g x \<noteq> Some 9) ys @ filter (\<lambda>x. g x = Some 9) ys"
  using assms
proof (induction ys)
  case Nil
  then show ?case by simp
next
  case (Cons x ys)
  show ?case
  proof (cases "g x = Some 9")
    case True
    have "g y = Some 9" if "y \<in> set ys" for y
    proof -
      from Cons.prems(1) that True obtain j where "g y = Some j" "9 \<le> j"
        by auto
      moreover from Cons.prems(2) [of y j] that this have "j \<le> 9" by simp
      ultimately show ?thesis by simp
    qed
    then have "filter (\<lambda>x. g x \<noteq> Some 9) ys = []" "filter (\<lambda>x. g x = Some 9) ys = ys"
      by (auto simp: filter_empty_conv filter_id_conv)
    with True show ?thesis by simp
  next
    case False
    from Cons.prems have "ys = filter (\<lambda>x. g x \<noteq> Some 9) ys @ filter (\<lambda>x. g x = Some 9) ys"
      by (intro Cons.IH) auto
    with False show ?thesis by simp
  qed
qed

lemma nine_first:
  fixes g :: "'a \<Rightarrow> int option"
  assumes "sorted_wrt (\<lambda>x y. \<exists>i j. g x = Some i \<and> g y = Some j \<and> j \<le> i) ys"
    and "\<And>x i. x \<in> set ys \<Longrightarrow> g x = Some i \<Longrightarrow> i \<le> 9"
  shows "ys = filter (\<lambda>x. g x = Some 9) ys @ filter (\<lambda>x. g x \<noteq> Some 9) ys"
  using assms
proof (induction ys)
  case Nil
  then show ?case by simp
next
  case (Cons x ys)
  show ?case
  proof (cases "g x = Some 9")
    case True
    from Cons.prems have "ys = filter (\<lambda>x. g x = Some 9) ys @ filter (\<lambda>x. g x \<noteq> Some 9) ys"
      by (intro Cons.IH) auto
    with True show ?thesis by simp
  next
    case False
    have "g y \<noteq> Some 9" if "y \<in> set ys" for y
    proof
      assume y9: "g y = Some 9"
      from Cons.prems(1) that y9 obtain i where "g x = Some i" "9 \<le> i"
        by auto
      moreover from Cons.prems(2) [of x i] this have "i \<le> 9" by simp
      ultimately show False using False by simp
    qed
    then have "filter (\<lambda>x. g x = Some 9) ys = []" "filter (\<lambda>x. g x \<noteq> Some 9) ys = ys"
      by (auto simp: filter_empty_conv filter_id_conv)
    with False show ?thesis by simp
  qed
qed


lemma slice_beyond:
  assumes "int (length xs) \<le> a" and "a \<le> b"
  shows "py_slice xs a b = []"
  using assms by (simp add: py_slice_def slice_index_def Let_def)

lemma slice_zero_end: "py_slice xs a 0 = []"
  by (simp add: py_slice_def slice_index_def Let_def)

lemma div_100_bound:
  fixes n p :: int
  assumes "(n + 99) div 100 < p"
  shows "n \<le> (p - 1) * 100"
proof -
  define d where "d = (n + 99) div 100"
  define m where "m = (n + 99) mod 100"
  have "n + 99 = 100 * d + m"
    by (simp add: d_def m_def)
  moreover have "m < 100"
    by (simp add: m_def)
  moreover from assms have "d < p"
    by (simp add: d_def)
  ultimately have "n \<le> 100 * p - 100"
    by linarith
  then show ?thesis
    by (simp add: algebra_simps)
qed

lemma paginate_beyond:
  assumes "snd (paginate xs p) < p"
  shows "fst (paginate xs p) = []"
proof -
  from assms have "(int (length xs) + 99) div 100 < p"
    by (simp add: paginate_def Let_def)
  then have "int (length xs) \<le> (p - 1) * 100"
    by (rule div_100_bound)
  then show ?thesis
    by (simp add: paginate_def Let_def slice_beyond)
qed

lemma paginate_250:
  assumes "length xs = 250"
  shows "snd (paginate xs p) = 3 \<and> fst (paginate xs 4) = []"
  using assms by (simp add: paginate_def Let_def slice_beyond)


lemma filter_cves_total:
  assumes "\<forall>x\<in>set rows. 3 \<le> length x"
  shows "\<exists>zs. filter_cves lib q y rows = Inr zs \<and> set zs \<subseteq> set rows"
proof -
  let ?p1 = "\<lambda>row. bind (cell row 1) (\<lambda>d. Inr (contains q (py_lower lib d)))"
  let ?p2 = "\<lambda>row. bind (cell row 2) (\<lambda>d. Inr (take 4 d = y))"
  have 1: "filterE ?p1 rows = Inr (filter (\<lambda>row. contains q (py_lower lib (row ! 1))) rows)"
    by (rule filterE_total) (use assms in \<open>auto simp: cell_def\<close>)
  have 2: "filterE ?p2 zs = Inr (filter (\<lambda>row. take 4 (row ! 2) = y) zs)"
    if "set zs \<subseteq> set rows" for zs
  proof (rule filterE_total)
    fix x assume "x \<in> set zs"
    with that assms have "3 \<le> length x" by blast
    then show "bind (cell x 2) (\<lambda>d. Inr (take 4 d = y)) = Inr (take 4 (x ! 2) = y)"
      by (simp add: cell_def)
  qed
  obtain zs where a: "(if q \<noteq> [] then filterE ?p1 rows else Inr rows) = Inr zs"
    and sub: "set zs \<subseteq> set rows"
    using 1 by (cases "q = []") auto
  obtain ws where b: "(if y \<noteq> [] then filterE ?p2 zs else Inr zs) = Inr ws"
    and sub': "set ws \<subseteq> set zs"
    using 2 [OF sub] by (cases "y = []") auto
  have "filter_cves lib q y rows = Inr ws"
    by (simp only: filter_cves_def a bind_Inr b)
  with sub sub' show ?thesis by blast
qed

lemma index_date_total:
  assumes p: "page_arg lib args = Inr p"
    and srt: "args_get args ''sort'' ''date'' \<noteq> ''score''"
    and l: "load_csv (csv_file s) = Inr rows"
    and rows: "\<forall>x\<in>set rows. 3 \<le> length x"
  shows "\<exists>v ys. index lib s args = Inr v \<and> page v = p \<and>
                cves v = fst (paginate ys p) \<and> total_pages v = snd (paginate ys p)"
proof -
  from filter_cves_total [OF rows]
  obtain zs where f: "filter_cves lib (py_lower lib (args_get args ''q'' []))
                        (args_get args ''year'' []) rows = Inr zs"
    and sub: "set zs \<subseteq> set rows"
    by blast
  have "list_sort (\<lambda>x. bind (cell x 2) (\<lambda>d. Inr (Some d)))
          (args_get args ''order'' ''desc'' = ''desc'') zs
        = Inr (if args_get args ''order'' ''desc'' = ''desc''
               then rev (sort_key (\<lambda>x. x ! 2) (rev zs)) else sort_key (\<lambda>x. x ! 2) zs)"
  proof (rule list_sort_total)
    fix x assume "x \<in> set zs"
    with sub rows have "3 \<le> length x" by blast
    then show "bind (cell x 2) (\<lambda>d. Inr (Some d)) = Inr (Some (x ! 2))"
      by (rule date_key_total)
  qed
  with srt obtain ys where s: "sort_cves lib (args_get args ''sort'' ''date'')
                                 (args_get args ''order'' ''desc'') zs = Inr ys"
    by (simp add: sort_cves_def)
  have "index lib s args = Inr \<lparr>cves = fst (paginate ys p),
            last_updated = load_last_updated lib s,
            query = py_lower lib (args_get args ''q'' []), page = p,
            total_pages = snd (paginate ys p), sort_by = args_get args ''sort'' ''date'',
            sort_order = args_get args ''order'' ''desc'',
            year_filter = args_get args ''year'' []\<rparr>"
    by (simp add: index_def Let_def p l f s split: prod.split)
  then show ?thesis
    by auto
qed

lemma length_big_text: "length big_text = 131073"
  by (simp add: big_text_def)

lemma big_text_over_limit: "\<not> length big_text \<le> field_limit"
  by (simp add: length_big_text field_limit_def)


lemma header_readable: "list_all (\<lambda>c. length c \<le> field_limit) header"
  by (simp add: header_def field_limit_def)

lemma load_big_store: "load_csv (Some [header, big_row_text]) = Inl CsvError"
  by (simp add: load_csv_def csv_read_def big_row_text_def
      big_text_over_limit header_readable [unfolded header_def] header_def)

lemmas csv_defs = read_existing_ids_def csv_read_def field_limit_def header_def

lemmas dec_defs = dec_float_def dec_unsigned_def dec_nat_def digit_val_def dec_int_def

lemmas sort_defs = sort_cves_def list_sort_def sort_by_keys_def cell_def get_score_bucket_def
  fle_def sample_lib_def

subsection \<open>Severity buckets\<close>

text \<open>
  C2, as the claim states it, fails: the score 8.9 lies in the interval that ends at 9,
  and the chain returns 7 for that interval, not 6.
\<close>

theorem get_score_bucket_8_9_counterexample:
  "get_score_bucket dec_float ''8.9'' = Some 7"
  by (simp add: get_score_bucket_def fle_def dec_defs)

text \<open>
  C2, amended: get_score_bucket uses inclusive upper bounds on the intervals that end
  at 2, 3, ..., 10: a score of at most 2 maps to bucket 0, and a score above k and at
  most k + 1 (for k from 2 to 9) maps to bucket k - 1. So 8.9 maps to bucket 7, exactly
  9.0 maps to bucket 7 too, and a score that does not parse, such as "N/A", maps to
  bucket 9.
\<close>

theorem get_score_bucket_bounds:
  "(fl s = None \<longrightarrow> get_score_bucket fl s = Some 9) \<and>
   (fl s = Some (FNum r) \<and> r \<le> 2 \<longrightarrow> get_score_bucket fl s = Some 0) \<and>
   (fl s = Some (FNum r) \<and> 2 \<le> k \<and> k \<le> 9 \<and> of_int k < r \<and> r \<le> of_int k + 1
      \<longrightarrow> get_score_bucket fl s = Some (k - 1))"
proof -
  have "get_score_bucket fl s = Some (k - 1)"
    if h: "fl s = Some (FNum r)" "2 \<le> k" "k \<le> 9" "of_int k < r" "r \<le> of_int k + 1"
  proof -
    from h(2,3) consider "k = 2" | "k = 3" | "k = 4" | "k = 5" | "k = 6" | "k = 7" | "k = 8" | "k = 9"
      by arith
    then show ?thesis
      using h(1,4,5) by cases (simp_all add: get_score_bucket_def fle_def)
  qed
  then show ?thesis
    by (auto simp: get_score_bucket_def fle_def)
qed

theorem get_score_bucket_bounds_witness:
  "get_score_bucket dec_float ''N/A'' = Some 9 \<and>
   get_score_bucket dec_float ''1.5'' = Some 0 \<and>
   get_score_bucket dec_float ''8.9'' = Some 7 \<and>
   get_score_bucket dec_float ''9.0'' = Some 7"
proof -
  have a: "dec_float ''N/A'' = None"
    by (simp add: dec_defs)
  have b: "dec_float ''1.5'' = Some (FNum (3 / 2)) \<and> (3 / 2 :: rat) \<le> 2"
    by (simp add: dec_defs)
  have c: "dec_float ''8.9'' = Some (FNum (89 / 10)) \<and> (2 :: int) \<le> 8 \<and> (8 :: int) \<le> 9 \<and>
           of_int 8 < (89 / 10 :: rat) \<and> (89 / 10 :: rat) \<le> of_int 8 + 1"
    by (simp add: dec_defs)
  have d: "dec_float ''9.0'' = Some (FNum 9) \<and> (2 :: int) \<le> 8 \<and> (8 :: int) \<le> 9 \<and>
           of_int 8 < (9 :: rat) \<and> (9 :: rat) \<le> of_int 8 + 1"
    by (simp add: dec_defs)
  from a get_score_bucket_bounds [where fl = dec_float and s = "''N/A''"]
  have 1: "get_score_bucket dec_float ''N/A'' = Some 9" by blast
  from b get_score_bucket_bounds [where fl = dec_float and s = "''1.5''" and r = "3 / 2"]
  have 2: "get_score_bucket dec_float ''1.5'' = Some 0" by blast
  from c get_score_bucket_bounds [where fl = dec_float and s = "''8.9''" and r = "89 / 10" and k = 8]
  have 3: "get_score_bucket dec_float ''8.9'' = Some 7" by simp
  from d get_score_bucket_bounds [where fl = dec_float and s = "''9.0''" and r = 9 and k = 8]
  have 4: "get_score_bucket dec_float ''9.0'' = Some 7" by simp
  from 1 2 3 4 show ?thesis by blast
qed

text \<open>
  C10: a score that parses to a float above 10 falls through every branch, and
  get_score_bucket returns None; it returns None exactly for a parsed score that is not
  at most 10. Sorting by score a list of two or more rows, one of which has such a
  score, fails with TypeError.
\<close>

theorem get_score_bucket_above_ten:
  "(fl s = Some (FNum r) \<and> 10 < r \<longrightarrow> get_score_bucket fl s = None) \<and>
   (get_score_bucket fl s = None \<longleftrightarrow> (\<exists>f. fl s = Some f \<and> \<not> fle f 10)) \<and>
   ((\<forall>x\<in>set xs. 4 \<le> length x) \<and> 2 \<le> length xs \<and> a \<in> set xs \<and>
    py_float lib (a ! 3) = Some (FNum r) \<and> 10 < r
      \<longrightarrow> sort_cves lib ''score'' ord xs = Inl TypeError)"
proof -
  have A: "get_score_bucket f t = None" if "f t = Some (FNum r)" "10 < r" for f t
    using that by (simp add: fle_cases fle_def)
  have C: "sort_cves lib ''score'' ord xs = Inl TypeError"
    if h: "(\<forall>x\<in>set xs. 4 \<le> length x) \<and> 2 \<le> length xs \<and> a \<in> set xs \<and>
           py_float lib (a ! 3) = Some (FNum r) \<and> 10 < r"
  proof -
    have "list_sort (\<lambda>x. bind (cell x 3) (\<lambda>sc. Inr (get_score_bucket (py_float lib) sc)))
            (ord = ''desc'') xs = Inl TypeError"
    proof (rule list_sort_fails [where k = "\<lambda>x. get_score_bucket (py_float lib) (x ! 3)" and a = a])
      show "bind (cell x 3) (\<lambda>sc. Inr (get_score_bucket (py_float lib) sc))
            = Inr (get_score_bucket (py_float lib) (x ! 3))" if "x \<in> set xs" for x
        using that h by (simp add: score_key_total)
      show "a \<in> set xs" "2 \<le> length xs" using h by simp_all
      show "get_score_bucket (py_float lib) (a ! 3) = None"
        using h A by blast
    qed
    then show ?thesis by (simp add: sort_cves_def)
  qed
  from A [of fl s] C fle_cases [of fl s] show ?thesis by blast
qed

theorem get_score_bucket_above_ten_witness:
  "get_score_bucket dec_float ''10.5'' = None \<and>
   sort_cves sample_lib ''score'' ''desc''
     [[''CVE-1'', ''d'', ''2023-01-01'', ''10.5''], [''CVE-2'', ''d'', ''2022-05-05'', ''5.0'']]
   = Inl TypeError"
proof -
  let ?a = "[''CVE-1'', ''d'', ''2023-01-01'', ''10.5'']"
  let ?xs = "[?a, [''CVE-2'', ''d'', ''2022-05-05'', ''5.0'']]"
  have h: "dec_float ''10.5'' = Some (FNum (21 / 2)) \<and> (10 :: rat) < 21 / 2"
    by (simp add: dec_defs)
  have g: "(\<forall>x\<in>set ?xs. 4 \<le> length x) \<and> 2 \<le> length ?xs \<and> ?a \<in> set ?xs \<and>
           py_float sample_lib (?a ! 3) = Some (FNum (21 / 2)) \<and> (10 :: rat) < 21 / 2"
    by (simp add: dec_defs sample_lib_def)
  from h get_score_bucket_above_ten [where fl = dec_float and s = "''10.5''" and r = "21 / 2"]
  have 1: "get_score_bucket dec_float ''10.5'' = None" by blast
  from g get_score_bucket_above_ten [where lib = sample_lib and xs = ?xs and a = ?a
      and r = "21 / 2" and ord = "''desc''"]
  have 2: "sort_cves sample_lib ''score'' ''desc'' ?xs = Inl TypeError" by blast
  from 1 2 show ?thesis by blast
qed

subsection \<open>Sorting\<close>

text \<open>
  C9: when the sort of index returns, its result is a permutation of the rows; the rows
  with one sort key (the severity bucket when sorting by score, the published-date
  string otherwise) stand in their input order, ascending and descending alike; and the
  keys are in order, the comparison reversed for "desc". The sort returns for every list
  of rows with a date cell when sorting by date, and for every list of rows with a
  bucketed score when sorting by score.
\<close>

theorem sort_cves_stable:
  "(sort_cves lib sb ord xs = Inr ys \<longrightarrow>
      mset ys = mset xs \<and>
      (sb = ''score'' \<longrightarrow>
         filter (\<lambda>x. get_score_bucket (py_float lib) (x ! 3) = b) ys
           = filter (\<lambda>x. get_score_bucket (py_float lib) (x ! 3) = b) xs \<and>
         sorted_wrt (\<lambda>x y. \<exists>i j. get_score_bucket (py_float lib) (x ! 3) = Some i \<and>
                                 get_score_bucket (py_float lib) (y ! 3) = Some j \<and>
                                 (if ord = ''desc'' then j \<le> i else i \<le> j)) ys) \<and>
      (sb \<noteq> ''score'' \<longrightarrow>
         filter (\<lambda>x. x ! 2 = d) ys = filter (\<lambda>x. x ! 2 = d) xs \<and>
         sorted_wrt (\<lambda>x y. if ord = ''desc'' then y ! 2 \<le> x ! 2 else x ! 2 \<le> y ! 2) ys)) \<and>
   (sb \<noteq> ''score'' \<and> (\<forall>x\<in>set xs. 3 \<le> length x)
      \<longrightarrow> (\<exists>zs. sort_cves lib sb ord xs = Inr zs)) \<and>
   (sb = ''score'' \<and> (\<forall>x\<in>set xs. 4 \<le> length x \<and> get_score_bucket (py_float lib) (x ! 3) \<noteq> None)
      \<longrightarrow> (\<exists>zs. sort_cves lib sb ord xs = Inr zs))"
proof -
  have A: "mset ys = mset xs" if a: "sort_cves lib sb ord xs = Inr ys"
  proof (cases "sb = ''score''")
    case True
    with a have "list_sort (\<lambda>x. bind (cell x 3) (\<lambda>sc. Inr (get_score_bucket (py_float lib) sc)))
                    (ord = ''desc'') xs = Inr ys"
      by (simp add: sort_cves_def)
    from list_sort_props [where g = "\<lambda>x. get_score_bucket (py_float lib) (x ! 3)", OF this score_key]
    show ?thesis by simp
  next
    case False
    with a have "list_sort (\<lambda>x. bind (cell x 2) (\<lambda>d. Inr (Some d))) (ord = ''desc'') xs = Inr ys"
      by (simp add: sort_cves_def)
    from list_sort_props [where g = "\<lambda>x. Some (x ! 2)", OF this date_key]
    show ?thesis by simp
  qed
  have B: "filter (\<lambda>x. get_score_bucket (py_float lib) (x ! 3) = b) ys
           = filter (\<lambda>x. get_score_bucket (py_float lib) (x ! 3) = b) xs \<and>
         sorted_wrt (\<lambda>x y. \<exists>i j. get_score_bucket (py_float lib) (x ! 3) = Some i \<and>
                                 get_score_bucket (py_float lib) (y ! 3) = Some j \<and>
                                 (if ord = ''desc'' then j \<le> i else i \<le> j)) ys"
    if a: "sort_cves lib sb ord xs = Inr ys" and sb: "sb = ''score''"
  proof -
    from a sb have "list_sort (\<lambda>x. bind (cell x 3) (\<lambda>sc. Inr (get_score_bucket (py_float lib) sc)))
                    (ord = ''desc'') xs = Inr ys"
      by (simp add: sort_cves_def)
    from list_sort_props [where g = "\<lambda>x. get_score_bucket (py_float lib) (x ! 3)" and b = b, OF this score_key]
    show ?thesis by simp
  qed
  have C: "filter (\<lambda>x. x ! 2 = d) ys = filter (\<lambda>x. x ! 2 = d) xs \<and>
         sorted_wrt (\<lambda>x y. if ord = ''desc'' then y ! 2 \<le> x ! 2 else x ! 2 \<le> y ! 2) ys"
    if a: "sort_cves lib sb ord xs = Inr ys" and sb: "sb \<noteq> ''score''"
  proof -
    from a sb have "list_sort (\<lambda>x. bind (cell x 2) (\<lambda>d. Inr (Some d))) (ord = ''desc'') xs = Inr ys"
      by (simp add: sort_cves_def)
    from list_sort_props [where g = "\<lambda>x. Some (x ! 2)" and b = "Some d", OF this date_key]
    show ?thesis by simp
  qed
  have D: "\<exists>zs. sort_cves lib sb ord xs = Inr zs"
    if "sb \<noteq> ''score'' \<and> (\<forall>x\<in>set xs. 3 \<le> length x)"
    using that by (simp add: sort_cves_def list_sort_total [where k = "\<lambda>x. x ! 2"] date_key_total)
  have E: "\<exists>zs. sort_cves lib sb ord xs = Inr zs"
    if h: "sb = ''score'' \<and> (\<forall>x\<in>set xs. 4 \<le> length x \<and> get_score_bucket (py_float lib) (x ! 3) \<noteq> None)"
  proof -
    have "list_sort (\<lambda>x. bind (cell x 3) (\<lambda>sc. Inr (get_score_bucket (py_float lib) sc))) (ord = ''desc'') xs
        = Inr (if ord = ''desc'' then rev (sort_key (\<lambda>x. the (get_score_bucket (py_float lib) (x ! 3))) (rev xs))
               else sort_key (\<lambda>x. the (get_score_bucket (py_float lib) (x ! 3))) xs)"
      by (rule list_sort_total) (use h in \<open>auto simp: score_key_total\<close>)
    with h show ?thesis
      by (simp add: sort_cves_def)
  qed
  from A B C D E show ?thesis by blast
qed

theorem sort_cves_stable_witness:
  "sort_cves sample_lib ''date'' ''desc''
     [[''CVE-1'', ''d'', ''2023-01-01'', ''5.0''], [''CVE-2'', ''d'', ''2022-05-05'', ''N/A''],
      [''CVE-3'', ''d'', ''2023-01-01'', ''9.8'']]
   = Inr [[''CVE-1'', ''d'', ''2023-01-01'', ''5.0''], [''CVE-3'', ''d'', ''2023-01-01'', ''9.8''],
          [''CVE-2'', ''d'', ''2022-05-05'', ''N/A'']] \<and>
   filter (\<lambda>x. x ! 2 = ''2023-01-01'')
     [[''CVE-1'', ''d'', ''2023-01-01'', ''5.0''], [''CVE-3'', ''d'', ''2023-01-01'', ''9.8''],
      [''CVE-2'', ''d'', ''2022-05-05'', ''N/A'']]
   = filter (\<lambda>x. x ! 2 = ''2023-01-01'')
       [[''CVE-1'', ''d'', ''2023-01-01'', ''5.0''], [''CVE-2'', ''d'', ''2022-05-05'', ''N/A''],
        [''CVE-3'', ''d'', ''2023-01-01'', ''9.8'']] \<and>
   sort_cves sample_lib ''score'' ''asc''
     [[''CVE-3'', ''d'', ''2023-01-01'', ''9.8''], [''CVE-1'', ''d'', ''2023-01-01'', ''5.0''],
      [''CVE-4'', ''d'', ''2021-01-01'', ''9.1'']]
   = Inr [[''CVE-1'', ''d'', ''2023-01-01'', ''5.0''], [''CVE-3'', ''d'', ''2023-01-01'', ''9.8''],
          [''CVE-4'', ''d'', ''2021-01-01'', ''9.1'']] \<and>
   filter (\<lambda>x. get_score_bucket (py_float sample_lib) (x ! 3) = Some 8)
     [[''CVE-1'', ''d'', ''2023-01-01'', ''5.0''], [''CVE-3'', ''d'', ''2023-01-01'', ''9.8''],
      [''CVE-4'', ''d'', ''2021-01-01'', ''9.1'']]
   = filter (\<lambda>x. get_score_bucket (py_float sample_lib) (x ! 3) = Some 8)
       [[''CVE-3'', ''d'', ''2023-01-01'', ''9.8''], [''CVE-1'', ''d'', ''2023-01-01'', ''5.0''],
        [''CVE-4'', ''d'', ''2021-01-01'', ''9.1'']] \<and>
   (\<exists>zs. sort_cves sample_lib ''date'' ''asc''
           [[''CVE-1'', ''d'', ''2023-01-01'', ''5.0''], [''CVE-2'', ''d'', ''2022-05-05'', ''N/A'']]
         = Inr zs) \<and>
   (\<exists>zs. sort_cves sample_lib ''score'' ''desc''
           [[''CVE-1'', ''d'', ''2023-01-01'', ''5.0''], [''CVE-2'', ''d'', ''2022-05-05'', ''N/A'']]
         = Inr zs)"
proof -
  let ?r1 = "[''CVE-1'', ''d'', ''2023-01-01'', ''5.0'']"
  let ?r2 = "[''CVE-2'', ''d'', ''2022-05-05'', ''N/A'']"
  let ?r3 = "[''CVE-3'', ''d'', ''2023-01-01'', ''9.8'']"
  let ?r4 = "[''CVE-4'', ''d'', ''2021-01-01'', ''9.1'']"
  have d: "sort_cves sample_lib ''date'' ''desc'' [?r1, ?r2, ?r3] = Inr [?r1, ?r3, ?r2]"
    by (simp add: sort_defs dec_defs)
  have n: "''date'' \<noteq> ''score''"
    by simp
  from d n sort_cves_stable [where lib = sample_lib and sb = "''date''" and ord = "''desc''"
      and xs = "[?r1, ?r2, ?r3]" and ys = "[?r1, ?r3, ?r2]" and d = "''2023-01-01''"]
  have 1: "filter (\<lambda>x. x ! 2 = ''2023-01-01'') [?r1, ?r3, ?r2]
           = filter (\<lambda>x. x ! 2 = ''2023-01-01'') [?r1, ?r2, ?r3]"
    by blast
  have s: "sort_cves sample_lib ''score'' ''asc'' [?r3, ?r1, ?r4] = Inr [?r1, ?r3, ?r4]"
    by (simp add: sort_defs dec_defs)
  from s sort_cves_stable [where lib = sample_lib and sb = "''score''" and ord = "''asc''"
      and xs = "[?r3, ?r1, ?r4]" and ys = "[?r1, ?r3, ?r4]" and b = "Some 8"]
  have 2: "filter (\<lambda>x. get_score_bucket (py_float sample_lib) (x ! 3) = Some 8) [?r1, ?r3, ?r4]
           = filter (\<lambda>x. get_score_bucket (py_float sample_lib) (x ! 3) = Some 8) [?r3, ?r1, ?r4]"
    by blast
  have t: "''date'' \<noteq> ''score'' \<and> (\<forall>x\<in>set [?r1, ?r2]. 3 \<le> length x)"
    by simp
  from t sort_cves_stable [where lib = sample_lib and sb = "''date''" and ord = "''asc''"
      and xs = "[?r1, ?r2]"]
  have 3: "\<exists>zs. sort_cves sample_lib ''date'' ''asc'' [?r1, ?r2] = Inr zs"
    by blast
  have u: "''score'' = ''score'' \<and>
           (\<forall>x\<in>set [?r1, ?r2]. 4 \<le> length x \<and> get_score_bucket (py_float sample_lib) (x ! 3) \<noteq> None)"
    by (simp add: get_score_bucket_def fle_def sample_lib_def dec_defs)
  from u sort_cves_stable [where lib = sample_lib and sb = "''score''" and ord = "''desc''"
      and xs = "[?r1, ?r2]"]
  have 4: "\<exists>zs. sort_cves sample_lib ''score'' ''desc'' [?r1, ?r2] = Inr zs"
    by blast
  from d 1 s 2 3 4 show ?thesis by blast
qed

text \<open>
  C5, as the claim states it, fails in its directions: 9 is the largest bucket, so the
  descending sort puts the row whose score does not parse first, not last.
\<close>

theorem sort_cves_unknown_score_counterexample:
  "sort_cves sample_lib ''score'' ''desc''
     [[''CVE-1'', ''d'', ''2023-01-01'', ''5.0''], [''CVE-2'', ''d'', ''2022-05-05'', ''N/A'']]
   = Inr [[''CVE-2'', ''d'', ''2022-05-05'', ''N/A''], [''CVE-1'', ''d'', ''2023-01-01'', ''5.0'']] \<and>
   sort_cves sample_lib ''score'' ''asc''
     [[''CVE-2'', ''d'', ''2022-05-05'', ''N/A''], [''CVE-1'', ''d'', ''2023-01-01'', ''5.0'']]
   = Inr [[''CVE-1'', ''d'', ''2023-01-01'', ''5.0''], [''CVE-2'', ''d'', ''2022-05-05'', ''N/A'']]"
  by (simp add: sort_defs dec_defs)

text \<open>
  C5, amended: a score that does not parse has bucket 9, and the sort by score treats 9
  as any other bucket value, with no special case. Since 9 is the largest bucket, the
  descending sort places the bucket-9 rows first (in their input order, before every
  other row) and the ascending sort places them last.
\<close>

theorem sort_cves_unknown_score:
  "(py_float lib s = None \<longrightarrow> get_score_bucket (py_float lib) s = Some 9) \<and>
   (sort_cves lib ''score'' ord xs = Inr ys \<longrightarrow>
      (ord = ''desc'' \<longrightarrow>
         ys = filter (\<lambda>x. get_score_bucket (py_float lib) (x ! 3) = Some 9) xs
              @ filter (\<lambda>x. get_score_bucket (py_float lib) (x ! 3) \<noteq> Some 9) ys) \<and>
      (ord \<noteq> ''desc'' \<longrightarrow>
         ys = filter (\<lambda>x. get_score_bucket (py_float lib) (x ! 3) \<noteq> Some 9) ys
              @ filter (\<lambda>x. get_score_bucket (py_float lib) (x ! 3) = Some 9) xs))"
proof -
  have A: "py_float lib s = None \<longrightarrow> get_score_bucket (py_float lib) s = Some 9"
    by (simp add: get_score_bucket_def)
  have B: "(ord = ''desc'' \<longrightarrow>
         ys = filter (\<lambda>x. get_score_bucket (py_float lib) (x ! 3) = Some 9) xs
              @ filter (\<lambda>x. get_score_bucket (py_float lib) (x ! 3) \<noteq> Some 9) ys) \<and>
      (ord \<noteq> ''desc'' \<longrightarrow>
         ys = filter (\<lambda>x. get_score_bucket (py_float lib) (x ! 3) \<noteq> Some 9) ys
              @ filter (\<lambda>x. get_score_bucket (py_float lib) (x ! 3) = Some 9) xs)"
    if a: "sort_cves lib ''score'' ord xs = Inr ys"
  proof -
    let ?g = "\<lambda>x. get_score_bucket (py_float lib) (x ! 3)"
    from a have "list_sort (\<lambda>x. bind (cell x 3) (\<lambda>sc. Inr (get_score_bucket (py_float lib) sc)))
                    (ord = ''desc'') xs = Inr ys"
      by (simp add: sort_cves_def)
    from list_sort_props [where g = ?g and b = "Some 9", OF this score_key]
    have f: "filter (\<lambda>x. ?g x = Some 9) ys = filter (\<lambda>x. ?g x = Some 9) xs"
      and s: "sorted_wrt (\<lambda>x y. \<exists>i j. ?g x = Some i \<and> ?g y = Some j \<and>
                               (if ord = ''desc'' then j \<le> i else i \<le> j)) ys"
      by simp_all
    have r: "\<And>x i. x \<in> set ys \<Longrightarrow> ?g x = Some i \<Longrightarrow> i \<le> 9"
      using bucket_range by blast
    show ?thesis
    proof (cases "ord = ''desc''")
      case True
      with s have "sorted_wrt (\<lambda>x y. \<exists>i j. ?g x = Some i \<and> ?g y = Some j \<and> j \<le> i) ys"
        by simp
      from nine_first [of ?g, OF this r] f True show ?thesis by simp
    next
      case False
      with s have "sorted_wrt (\<lambda>x y. \<exists>i j. ?g x = Some i \<and> ?g y = Some j \<and> i \<le> j) ys"
        by simp
      from nine_last [of ?g, OF this r] f False show ?thesis by simp
    qed
  qed
  from A B show ?thesis by blast
qed

theorem sort_cves_unknown_score_witness:
  "get_score_bucket (py_float sample_lib) ''N/A'' = Some 9 \<and>
   [[''CVE-2'', ''d'', ''2022-05-05'', ''N/A''], [''CVE-1'', ''d'', ''2023-01-01'', ''5.0'']]
   = filter (\<lambda>x. get_score_bucket (py_float sample_lib) (x ! 3) = Some 9)
       [[''CVE-1'', ''d'', ''2023-01-01'', ''5.0''], [''CVE-2'', ''d'', ''2022-05-05'', ''N/A'']]
     @ filter (\<lambda>x. get_score_bucket (py_float sample_lib) (x ! 3) \<noteq> Some 9)
       [[''CVE-2'', ''d'', ''2022-05-05'', ''N/A''], [''CVE-1'', ''d'', ''2023-01-01'', ''5.0'']] \<and>
   [[''CVE-1'', ''d'', ''2023-01-01'', ''5.0''], [''CVE-2'', ''d'', ''2022-05-05'', ''N/A'']]
   = filter (\<lambda>x. get_score_bucket (py_float sample_lib) (x ! 3) \<noteq> Some 9)
       [[''CVE-1'', ''d'', ''2023-01-01'', ''5.0''], [''CVE-2'', ''d'', ''2022-05-05'', ''N/A'']]
     @ filter (\<lambda>x. get_score_bucket (py_float sample_lib) (x ! 3) = Some 9)
       [[''CVE-2'', ''d'', ''2022-05-05'', ''N/A''], [''CVE-1'', ''d'', ''2023-01-01'', ''5.0'']]"
proof -
  let ?r1 = "[''CVE-1'', ''d'', ''2023-01-01'', ''5.0'']"
  let ?r2 = "[''CVE-2'', ''d'', ''2022-05-05'', ''N/A'']"
  have p: "py_float sample_lib ''N/A'' = None"
    by (simp add: sample_lib_def dec_defs)
  have d: "sort_cves sample_lib ''score'' ''desc'' [?r1, ?r2] = Inr [?r2, ?r1]"
    by (simp add: sort_defs dec_defs)
  have a: "sort_cves sample_lib ''score'' ''asc'' [?r2, ?r1] = Inr [?r1, ?r2]"
    by (simp add: sort_defs dec_defs)
  have n: "''asc'' \<noteq> ''desc''"
    by simp
  from p sort_cves_unknown_score [where lib = sample_lib and s = "''N/A''"]
  have 1: "get_score_bucket (py_float sample_lib) ''N/A'' = Some 9" by blast
  from d sort_cves_unknown_score [where lib = sample_lib and ord = "''desc''"
      and xs = "[?r1, ?r2]" and ys = "[?r2, ?r1]"]
  have 2: "[?r2, ?r1]
           = filter (\<lambda>x. get_score_bucket (py_float sample_lib) (x ! 3) = Some 9) [?r1, ?r2]
             @ filter (\<lambda>x. get_score_bucket (py_float sample_lib) (x ! 3) \<noteq> Some 9) [?r2, ?r1]"
    by blast
  from a n sort_cves_unknown_score [where lib = sample_lib and ord = "''asc''"
      and xs = "[?r2, ?r1]" and ys = "[?r1, ?r2]"]
  have 3: "[?r1, ?r2]
           = filter (\<lambda>x. get_score_bucket (py_float sample_lib) (x ! 3) \<noteq> Some 9) [?r1, ?r2]
             @ filter (\<lambda>x. get_score_bucket (py_float sample_lib) (x ! 3) = Some 9) [?r2, ?r1]"
    by blast
  from 1 2 3 show ?thesis by blast
qed

subsection \<open>Pagination\<close>

text \<open>
  C6, as the claim states it, fails three times. A page value that is not an integer
  makes \<^verbatim>\<open>int\<close> raise ValueError, which index does not catch; a negative page number,
  out of range as it is, is sliced from the end of the list: page -1 of 250 rows is a
  slice of 100 rows; and a store with a field over the csv reader's limit makes load_csv
  raise, whatever the page.
\<close>

theorem index_page_counterexample:
  "index sample_lib sample_fs [(''page'', ''abc'')] = Inl ValueError \<and>
   fst (paginate (replicate 250 [''CVE-1'', ''d'', ''2023-01-01'', ''5.0'']) (- 1))
     = replicate 100 [''CVE-1'', ''d'', ''2023-01-01'', ''5.0''] \<and>
   index sample_lib (no_files\<lparr>csv_file := Some [header, big_row_text]\<rparr>) [] = Inl CsvError"
proof -
  have "index sample_lib sample_fs [(''page'', ''abc'')] = Inl ValueError"
    by (simp add: index_def page_arg_def Let_def sample_lib_def dec_defs)
  moreover have "fst (paginate (replicate 250 [''CVE-1'', ''d'', ''2023-01-01'', ''5.0'']) (- 1))
     = replicate 100 [''CVE-1'', ''d'', ''2023-01-01'', ''5.0'']"
    by (simp add: paginate_def Let_def py_slice_def slice_index_def)
  moreover have "index sample_lib (no_files\<lparr>csv_file := Some [header, big_row_text]\<rparr>) []
                 = Inl CsvError"
    by (simp add: index_def page_arg_def Let_def no_files_def load_big_store)
  ultimately show ?thesis by blast
qed

text \<open>
  C6, amended: a page value that is not an integer makes the request fail with
  ValueError, and a store the csv reader refuses makes it fail with the reader's error.
  For every store the reader accepts whose rows have a date cell, sorted by date, and
  every integer page value, index returns a view; a page number greater than the total
  page count yields an empty slice, and so does page 0 (a negative page number is sliced
  from the end of the list and may yield rows). In particular, with 250 filtered records
  and page size 100 there are 3 total pages, and page 4 is the empty slice.
\<close>

theorem index_page:
  "(map_of args ''page'' = Some t \<and> py_int lib t = None \<longrightarrow> index lib s args = Inl ValueError) \<and>
   (page_arg lib args = Inr p \<and> load_csv (csv_file s) = Inl e \<longrightarrow> index lib s args = Inl e) \<and>
   (page_arg lib args = Inr p \<and> args_get args ''sort'' ''date'' \<noteq> ''score'' \<and>
    load_csv (csv_file s) = Inr rows \<and> (\<forall>x\<in>set rows. 3 \<le> length x)
      \<longrightarrow> (\<exists>v. index lib s args = Inr v \<and> page v = p \<and>
               (total_pages v < p \<longrightarrow> cves v = []) \<and> (p = 0 \<longrightarrow> cves v = []))) \<and>
   (snd (paginate xs p) < p \<longrightarrow> fst (paginate xs p) = []) \<and>
   (length xs = 250 \<longrightarrow> snd (paginate xs p) = 3 \<and> fst (paginate xs 4) = [])"
proof -
  have A: "index lib s args = Inl ValueError"
    if "map_of args ''page'' = Some t \<and> py_int lib t = None"
    using that by (simp add: index_def page_arg_def Let_def)
  have L: "index lib s args = Inl e"
    if "page_arg lib args = Inr p \<and> load_csv (csv_file s) = Inl e"
    using that by (simp add: index_def Let_def)
  have B: "\<exists>v. index lib s args = Inr v \<and> page v = p \<and>
               (total_pages v < p \<longrightarrow> cves v = []) \<and> (p = 0 \<longrightarrow> cves v = [])"
    if h: "page_arg lib args = Inr p \<and> args_get args ''sort'' ''date'' \<noteq> ''score'' \<and>
           load_csv (csv_file s) = Inr rows \<and> (\<forall>x\<in>set rows. 3 \<le> length x)"
  proof -
    from h index_date_total [of lib args p s rows]
    obtain v ys where v: "index lib s args = Inr v" "page v = p"
      "cves v = fst (paginate ys p)" "total_pages v = snd (paginate ys p)"
      by blast
    have "fst (paginate ys 0) = []"
      by (simp add: paginate_def Let_def slice_zero_end)
    with v paginate_beyond [of ys p] show ?thesis
      by auto
  qed
  from A L B paginate_beyond [of xs p] paginate_250 [of xs p] show ?thesis
    by blast
qed

theorem index_page_witness:
  "index sample_lib sample_fs [(''page'', ''abc'')] = Inl ValueError \<and>
   index sample_lib (no_files\<lparr>csv_file := Some [header, big_row_text]\<rparr>) [] = Inl CsvError \<and>
   (\<exists>v. index sample_lib sample_fs [(''page'', ''2'')] = Inr v \<and> page v = 2 \<and>
        total_pages v = 1 \<and> cves v = []) \<and>
   snd (paginate (replicate 250 [''CVE-1'', ''d'', ''2023-01-01'', ''5.0'']) 4) = 3 \<and>
   fst (paginate (replicate 250 [''CVE-1'', ''d'', ''2023-01-01'', ''5.0'']) 4) = []"
proof -
  let ?xs = "replicate 250 [''CVE-1'', ''d'', ''2023-01-01'', ''5.0'']"
  let ?big = "no_files\<lparr>csv_file := Some [header, big_row_text]\<rparr>"
  let ?rows = "[[''CVE-1'', ''d'', ''2023-01-01'', ''5.0''], [''CVE-2'', ''d'', ''2022-05-05'', ''N/A'']]"
  have h1: "map_of [(''page'', ''abc'')] ''page'' = Some ''abc'' \<and> py_int sample_lib ''abc'' = None"
    by (simp add: sample_lib_def dec_defs)
  from h1 index_page [where lib = sample_lib and s = sample_fs and args = "[(''page'', ''abc'')]"
      and t = "''abc''"]
  have 1: "index sample_lib sample_fs [(''page'', ''abc'')] = Inl ValueError"
    by blast
  have h0: "page_arg sample_lib [] = Inr 1 \<and> load_csv (csv_file ?big) = Inl CsvError"
    by (simp add: page_arg_def no_files_def load_big_store)
  from h0 index_page [where lib = sample_lib and s = ?big and args = "[]" and p = 1
      and e = CsvError]
  have 0: "index sample_lib ?big [] = Inl CsvError"
    by blast
  have ld: "load_csv (csv_file sample_fs) = Inr ?rows"
    by (simp add: load_csv_def sample_fs_def no_files_def csv_defs)
  have h2: "page_arg sample_lib [(''page'', ''2'')] = Inr 2 \<and>
            args_get [(''page'', ''2'')] ''sort'' ''date'' \<noteq> ''score'' \<and>
            load_csv (csv_file sample_fs) = Inr ?rows \<and> (\<forall>x\<in>set ?rows. 3 \<le> length x)"
    by (simp add: page_arg_def args_get_def sample_lib_def dec_defs ld)
  from h2 index_page [where lib = sample_lib and s = sample_fs and args = "[(''page'', ''2'')]"
      and p = 2 and rows = ?rows]
  obtain v where v: "index sample_lib sample_fs [(''page'', ''2'')] = Inr v" "page v = 2"
    "total_pages v < 2 \<longrightarrow> cves v = []"
    by blast
  have "index sample_lib sample_fs [(''page'', ''2'')] =
     Inr \<lparr>cves = [], last_updated = ''Never'', query = [], page = 2, total_pages = 1,
          sort_by = ''date'', sort_order = ''desc'', year_filter = []\<rparr>"
    by (simp add: index_def page_arg_def Let_def ld)
       (simp add: sample_lib_def dec_defs sample_fs_def no_files_def
        load_last_updated_def args_get_def filter_cves_def sort_cves_def
        list_sort_def sort_by_keys_def cell_def paginate_def py_slice_def slice_index_def)
  with v have 2: "\<exists>v. index sample_lib sample_fs [(''page'', ''2'')] = Inr v \<and> page v = 2 \<and>
        total_pages v = 1 \<and> cves v = []"
    by auto
  have h3: "length ?xs = 250"
    by simp
  from h3 index_page [where xs = ?xs and p = 4]
  have 3: "snd (paginate ?xs 4) = 3 \<and> fst (paginate ?xs 4) = []"
    by blast
  from 1 0 2 3 show ?thesis by blast
qed

section \<open>Properties of the record store\<close>

subsection \<open>Auxiliary facts\<close>

lemma mapE_Inl: "mapE f xs = Inl e \<Longrightarrow> \<exists>x\<in>set xs. f x = Inl e"
proof (induction xs)
  case Nil
  then show ?case by simp
next
  case (Cons x xs)
  show ?case
  proof (cases "f x")
    case (Inl e')
    with Cons.prems show ?thesis by simp
  next
    case (Inr y)
    show ?thesis
    proof (cases "mapE f xs")
      case (Inl e')
      with Cons.prems Inr have "e' = e" by simp
      with Inl Cons.IH show ?thesis by simp
    next
      case r: (Inr ys)
      with Cons.prems Inr show ?thesis by simp
    qed
  qed
qed



lemma csv_read_Inr: "csv_read r = Inr r' \<longleftrightarrow> list_all (\<lambda>c. length c \<le> field_limit) r \<and> r' = r"
  by (auto simp: csv_read_def)

lemma csv_read_Inl: "csv_read r = Inl e \<Longrightarrow> e = CsvError"
  by (auto simp: csv_read_def split: if_splits)

lemma read_id_Inr:
  "bind (csv_read r) (\<lambda>row. cell row 0) = Inr i
     \<longleftrightarrow> list_all (\<lambda>c. length c \<le> field_limit) r \<and> r \<noteq> [] \<and> i = hd r"
  by (cases r) (auto simp: bind_eq_Inr csv_read_Inr cell_def)

lemma read_id_Inl:
  "bind (csv_read r) (\<lambda>row. cell row 0) = Inl e \<Longrightarrow> e = CsvError \<or> e = IndexError"
  by (cases "csv_read r") (auto simp: cell_def dest: csv_read_Inl split: if_splits)

lemma mapE_read_ids:
  "mapE (\<lambda>r. bind (csv_read r) (\<lambda>row. cell row 0)) xs = Inr ids \<Longrightarrow> ids = map hd xs"
proof (induction xs arbitrary: ids)
  case Nil
  then show ?case by simp
next
  case (Cons x xs)
  from Cons.prems obtain i js where i: "bind (csv_read x) (\<lambda>row. cell row 0) = Inr i"
    and "mapE (\<lambda>r. bind (csv_read r) (\<lambda>row. cell row 0)) xs = Inr js" and "ids = i # js"
    by (auto simp: bind_eq_Inr)
  with Cons.IH [of js] show ?case
    by (simp add: read_id_Inr)
qed

lemma read_existing_ids_Inr:
  assumes "read_existing_ids file = Inr ids"
  shows "ids = store_ids file"
proof (cases "file")
  case None
  with assms show ?thesis
    by (simp add: read_existing_ids_def store_ids_def file_rows_def)
next
  case (Some rows)
  with assms have "mapE (\<lambda>r. bind (csv_read r) (\<lambda>row. cell row 0)) (drop 1 rows) = Inr ids"
    by (auto simp: read_existing_ids_def bind_eq_Inr)
  from mapE_read_ids [OF this] Some show ?thesis
    by (simp add: store_ids_def file_rows_def)
qed

lemma read_existing_ids_Inl:
  assumes "read_existing_ids file = Inl e"
  shows "e = CsvError \<or> e = IndexError"
proof (cases "file")
  case None
  with assms show ?thesis
    by (simp add: read_existing_ids_def)
next
  case (Some rows)
  show ?thesis
  proof (cases "mapE csv_read (take 1 rows)")
    case (Inl e')
    with assms Some have "e' = e"
      by (simp add: read_existing_ids_def)
    with Inl mapE_Inl [of csv_read "take 1 rows" e] show ?thesis
      by (auto dest: csv_read_Inl)
  next
    case (Inr h)
    with assms Some
    have "mapE (\<lambda>r. bind (csv_read r) (\<lambda>row. cell row 0)) (drop 1 rows) = Inl e"
      by (simp add: read_existing_ids_def)
    from mapE_Inl [OF this] show ?thesis
      by (auto dest: read_id_Inl)
  qed
qed



lemma writerows_cases:
  "(writerows enc w rs = (Inr (), w @ rs)) \<or>
   (\<exists>k < length rs. writerows enc w rs = (Inl UnicodeEncodeError, w @ take k rs))"
proof (induction rs arbitrary: w)
  case Nil
  then show ?case by simp
next
  case (Cons r rs)
  show ?case
  proof (cases "list_all enc r")
    case False
    then have "writerows enc w (r # rs) = (Inl UnicodeEncodeError, w @ take 0 (r # rs))"
      by simp
    then show ?thesis by blast
  next
    case True
    from Cons.IH [of "w @ [r]"] show ?thesis
    proof
      assume "writerows enc (w @ [r]) rs = (Inr (), (w @ [r]) @ rs)"
      with True show ?thesis by simp
    next
      assume "\<exists>k<length rs. writerows enc (w @ [r]) rs
                = (Inl UnicodeEncodeError, (w @ [r]) @ take k rs)"
      then obtain k where "k < length rs"
        "writerows enc (w @ [r]) rs = (Inl UnicodeEncodeError, (w @ [r]) @ take k rs)"
        by blast
      with True have "Suc k < length (r # rs)"
        "writerows enc w (r # rs) = (Inl UnicodeEncodeError, w @ take (Suc k) (r # rs))"
        by simp_all
      then show ?thesis by blast
    qed
  qed
qed

lemma batch_okD:
  assumes "batch_ok new" and "row \<in> set new"
  shows "\<exists>s cells. row = JStr s # cells"
proof -
  from assms have c: "(case row of JStr s # cells \<Rightarrow> True | _ \<Rightarrow> False)"
    by (simp add: batch_ok_def list_all_iff)
  show ?thesis
  proof (cases row)
    case Nil
    with c show ?thesis by simp
  next
    case (Cons v cells)
    with c show ?thesis by (cases v) simp_all
  qed
qed

lemma unique_data_eq:
  assumes "batch_ok new"
  shows "filterE (\<lambda>row. bind (cell row 0) (\<lambda>v. bind (in_ids v ids) (\<lambda>b. Inr (\<not> b)))) new
         = Inr (filter (\<lambda>row. row_id row \<notin> ids) new)"
proof (rule filterE_total)
  fix row assume "row \<in> set new"
  with assms obtain s cells where "row = JStr s # cells"
    by (blast dest: batch_okD)
  then show "bind (cell row 0) (\<lambda>v. bind (in_ids v ids) (\<lambda>b. Inr (\<not> b))) = Inr (row_id row \<notin> ids)"
    by (simp add: cell_def in_ids_def row_id_def)
qed


lemma started_eq:
  "(case file of None \<Rightarrow> [] | Some rows \<Rightarrow> rows) @ (if file = None then [header] else [])
   = (case file of None \<Rightarrow> [header] | Some rows \<Rightarrow> rows)"
  by (cases "file") simp_all

lemma save_to_csv_write:
  assumes r: "read_existing_ids file = Inr ids"
    and f: "filterE (\<lambda>row. bind (cell row 0) (\<lambda>v.
               bind (in_ids v (set ids)) (\<lambda>b. Inr (\<not> b)))) new = Inr u"
  shows "save_to_csv enc str_of new file =
     (case writerows enc (case file of None \<Rightarrow> [header] | Some rows \<Rightarrow> rows)
             (map (map (cell_text str_of)) u) of
        (Inl e, written) \<Rightarrow> (Inl e, Some written)
      | (Inr x, written) \<Rightarrow> (Inr (length u), Some written))"
  unfolding save_to_csv_def r sum.case f Let_def started_eq ..

lemma save_to_csv_cases:
  fixes st :: store
  assumes "batch_ok new"
  defines "u \<equiv> filter (\<lambda>row. row_id row \<notin> set (store_ids st)) new"
  shows "(\<exists>e. e \<noteq> UnicodeEncodeError \<and> save_to_csv enc str_of new st = (Inl e, st)) \<or>
         save_to_csv enc str_of new st =
           (Inr (length u), Some ((case st of None \<Rightarrow> [header] | Some rows \<Rightarrow> rows)
                                   @ map (map (cell_text str_of)) u)) \<or>
         (\<exists>k<length u. save_to_csv enc str_of new st =
           (Inl UnicodeEncodeError, Some ((case st of None \<Rightarrow> [header] | Some rows \<Rightarrow> rows)
                                           @ map (map (cell_text str_of)) (take k u))))"
proof (cases "read_existing_ids st")
  case (Inl e)
  then have "save_to_csv enc str_of new st = (Inl e, st)"
    by (simp add: save_to_csv_def)
  moreover from read_existing_ids_Inl [OF Inl] have "e \<noteq> UnicodeEncodeError"
    by auto
  ultimately show ?thesis by blast
next
  case (Inr ids)
  from read_existing_ids_Inr [OF Inr] have ids: "ids = store_ids st" .
  have f: "filterE (\<lambda>row. bind (cell row 0) (\<lambda>v.
               bind (in_ids v (set ids)) (\<lambda>b. Inr (\<not> b)))) new = Inr u"
    unfolding u_def ids using assms(1) by (rule unique_data_eq)
  note w = save_to_csv_write [OF Inr f, of enc str_of]
  let ?st = "case st of None \<Rightarrow> [header] | Some rows \<Rightarrow> rows"
  let ?W = "map (map (cell_text str_of))"
  from writerows_cases [of enc ?st "?W u"] show ?thesis
  proof
    assume "writerows enc ?st (?W u) = (Inr (), ?st @ ?W u)"
    with w show ?thesis by simp
  next
    assume "\<exists>k<length (?W u). writerows enc ?st (?W u)
              = (Inl UnicodeEncodeError, ?st @ take k (?W u))"
    then obtain k where "k < length u"
      "writerows enc ?st (?W u) = (Inl UnicodeEncodeError, ?st @ take k (?W u))"
      by auto
    with w have "k < length u \<and> save_to_csv enc str_of new st
        = (Inl UnicodeEncodeError, Some (?st @ ?W (take k u)))"
      by (simp add: take_map)
    then show ?thesis by blast
  qed
qed




lemma written_row:
  assumes "batch_ok u" and "row \<in> set u"
  shows "map (cell_text str_of) row \<noteq> [] \<and> hd (map (cell_text str_of) row) = row_id row"
proof -
  from batch_okD [OF assms] obtain s cells where "row = JStr s # cells"
    by blast
  then show ?thesis
    by (simp add: cell_text_def row_id_def)
qed

lemma batch_ok_filter: "batch_ok new \<Longrightarrow> batch_ok (filter P new)"
  by (simp add: batch_ok_def list_all_iff)

lemma batch_ok_take: "batch_ok new \<Longrightarrow> batch_ok (take k new)"
  by (auto simp: batch_ok_def list_all_iff dest: in_set_takeD)

lemma file_rows_after:
  fixes st :: store
  assumes "store_ok st"
  shows "file_rows (Some ((case st of None \<Rightarrow> [header] | Some rows \<Rightarrow> rows) @ ws))
         = file_rows st @ ws"
proof (cases st)
  case None
  then show ?thesis by (simp add: file_rows_def)
next
  case (Some rows)
  with assms obtain r rs where "rows = r # rs"
    by (cases rows) (simp_all add: store_ok_def)
  with Some show ?thesis by (simp add: file_rows_def)
qed

lemma store_ok_after:
  fixes st :: store
  assumes "store_ok st" and "\<forall>w\<in>set ws. w \<noteq> []"
  shows "store_ok (Some ((case st of None \<Rightarrow> [header] | Some rows \<Rightarrow> rows) @ ws))"
proof (cases st)
  case None
  with assms(2) show ?thesis by (simp add: store_ok_def list_all_iff)
next
  case (Some rows)
  with assms have "rows \<noteq> []" "list_all (\<lambda>r. r \<noteq> []) (tl rows)"
    by (simp_all add: store_ok_def)
  with Some assms(2) show ?thesis
    by (auto simp: store_ok_def list_all_iff)
qed

lemma after_rows:
  fixes st :: store and str_of :: "json \<Rightarrow> string" and v :: "json list list"
  assumes ok: "store_ok st" and b: "batch_ok v"
  defines "st' \<equiv> Some ((case st of None \<Rightarrow> [header] | Some rows \<Rightarrow> rows)
                         @ map (map (cell_text str_of)) v)"
  shows "store_ok st'"
    and "store_ids st' = store_ids st @ map row_id v"
    and "file_rows st' = file_rows st @ map (map (cell_text str_of)) v"
proof -
  let ?ws = "map (map (cell_text str_of)) v"
  have ne: "\<forall>w\<in>set ?ws. w \<noteq> []"
    using written_row [OF b] by auto
  show "store_ok st'"
    unfolding st'_def using ok ne by (rule store_ok_after)
  show l: "file_rows st' = file_rows st @ ?ws"
    unfolding st'_def using ok by (rule file_rows_after)
  have "map hd ?ws = map row_id v"
    using written_row [OF b] by (simp add: comp_def)
  then show "store_ids st' = store_ids st @ map row_id v"
    by (simp add: store_ids_def l)
qed

lemma save_to_csv_any:
  fixes st :: store
  assumes ok: "store_ok st" and b: "batch_ok new"
  shows "\<exists>k. store_ok (snd (save_to_csv enc str_of new st)) \<and>
             store_ids (snd (save_to_csv enc str_of new st))
               = store_ids st @ map row_id (take k (filter (\<lambda>row. row_id row \<notin> set (store_ids st)) new))"
proof -
  let ?u = "filter (\<lambda>row. row_id row \<notin> set (store_ids st)) new"
  have bu: "batch_ok (take k ?u)" for k
    using b by (intro batch_ok_take batch_ok_filter)
  note ar = after_rows [OF ok bu, where str_of = str_of]
  from save_to_csv_cases [OF b, where st = st and enc = enc and str_of = str_of]
  consider (same) "snd (save_to_csv enc str_of new st) = st"
    | (pre) k where "snd (save_to_csv enc str_of new st)
          = Some ((case st of None \<Rightarrow> [header] | Some rows \<Rightarrow> rows)
                  @ map (map (cell_text str_of)) (take k ?u))"
  proof (elim disjE exE conjE)
    fix e assume "save_to_csv enc str_of new st = (Inl e, st)"
    then show ?thesis by (intro same) simp
  next
    assume "save_to_csv enc str_of new st =
      (Inr (length ?u), Some ((case st of None \<Rightarrow> [header] | Some rows \<Rightarrow> rows)
                               @ map (map (cell_text str_of)) ?u))"
    then show ?thesis by (intro pre [of "length ?u"]) simp
  next
    fix k assume "save_to_csv enc str_of new st =
      (Inl UnicodeEncodeError, Some ((case st of None \<Rightarrow> [header] | Some rows \<Rightarrow> rows)
                                      @ map (map (cell_text str_of)) (take k ?u)))"
    then show ?thesis by (intro pre [of k]) simp
  qed
  then show ?thesis
  proof cases
    case same
    with ok have "store_ok (snd (save_to_csv enc str_of new st)) \<and>
                  store_ids (snd (save_to_csv enc str_of new st))
                    = store_ids st @ map row_id (take 0 ?u)"
      by simp
    then show ?thesis by blast
  next
    case (pre k)
    with ar(1,2) [of k] show ?thesis by auto
  qed
qed



lemma appends_invariant:
  fixes st :: store
  assumes "store_ok st" and "distinct (store_ids st)"
    and "\<forall>b\<in>set batches. batch_ok b \<and> distinct (map row_id b)"
  shows "store_ok (appends enc str_of batches st) \<and>
         distinct (store_ids (appends enc str_of batches st))"
  using assms
proof (induction batches arbitrary: st)
  case Nil
  then show ?case by simp
next
  case (Cons b batches)
  then have ok: "store_ok st" and bok: "batch_ok b" and d: "distinct (map row_id b)"
    by simp_all
  let ?u = "filter (\<lambda>row. row_id row \<notin> set (store_ids st)) b"
  from save_to_csv_any [OF ok bok, where enc = enc and str_of = str_of]
  obtain k where st: "store_ok (snd (save_to_csv enc str_of b st))"
    and ids: "store_ids (snd (save_to_csv enc str_of b st)) = store_ids st @ map row_id (take k ?u)"
    by blast
  have "distinct (map row_id ?u)"
    using d by (rule distinct_map_filter)
  then have "distinct (map row_id (take k ?u))"
    by (simp add: take_map [symmetric] distinct_take)
  moreover have "set (map row_id (take k ?u)) \<inter> set (store_ids st) = {}"
    by (auto dest: in_set_takeD)
  ultimately have "distinct (store_ids (snd (save_to_csv enc str_of b st)))"
    using Cons.prems(2) by (auto simp: ids)
  with st Cons.prems(3) show ?case
    by (simp add: Cons.IH)
qed

lemmas store_defs = save_to_csv_def cell_def in_ids_def cell_text_def sample_str_def
  sample_row_def sample_text_def sample_enc_def surrogate_text_def csv_defs

subsection \<open>Appending\<close>







text \<open>
  C4, as the claim states it, fails: save_to_csv compares a record with the
  identifiers already in the file only, so a batch that holds a new identifier twice is
  written with both rows.
\<close>

theorem appends_duplicate_counterexample:
  "store_ids (appends sample_enc sample_str [[sample_row ''A'', sample_row ''A'']] None)
     = [''A'', ''A''] \<and>
   \<not> distinct (store_ids (appends sample_enc sample_str [[sample_row ''A'', sample_row ''A'']] None))"
proof -
  have "store_ids (appends sample_enc sample_str [[sample_row ''A'', sample_row ''A'']] None)
        = [''A'', ''A'']"
    by (simp add: store_defs store_ids_def file_rows_def)
  then show ?thesis by simp
qed

text \<open>
  C4, amended: after any sequence of save_to_csv calls that starts with no file and in
  which no batch holds two records with the same identifier, no two rows of the store
  share an identifier (whether the calls return or raise).
\<close>

theorem appends_distinct_ids:
  assumes "\<forall>b\<in>set batches. batch_ok b \<and> distinct (map row_id b)"
  shows "distinct (store_ids (appends enc str_of batches None))"
proof -
  have "store_ok None" "distinct (store_ids None)"
    by (simp_all add: store_ok_def store_ids_def file_rows_def)
  from appends_invariant [OF this assms] show ?thesis by simp
qed

theorem appends_distinct_ids_witness:
  "distinct (store_ids (appends sample_enc sample_str
      [[sample_row ''A'', sample_row ''B'', sample_row ''C''],
       [sample_row ''B'', sample_row ''C'', sample_row ''D'']] None)) \<and>
   store_ids (appends sample_enc sample_str
      [[sample_row ''A'', sample_row ''B'', sample_row ''C''],
       [sample_row ''B'', sample_row ''C'', sample_row ''D'']] None) = [''A'', ''B'', ''C'', ''D'']"
proof -
  let ?bs = "[[sample_row ''A'', sample_row ''B'', sample_row ''C''],
              [sample_row ''B'', sample_row ''C'', sample_row ''D'']]"
  have h: "\<forall>b\<in>set ?bs. batch_ok b \<and> distinct (map row_id b)"
    by (simp add: batch_ok_def row_id_def sample_row_def)
  from appends_distinct_ids [OF h, of sample_enc sample_str]
  have 1: "distinct (store_ids (appends sample_enc sample_str ?bs None))" .
  have 2: "store_ids (appends sample_enc sample_str ?bs None) = [''A'', ''B'', ''C'', ''D'']"
    by (simp add: store_defs store_ids_def file_rows_def)
  from 1 2 show ?thesis by blast
qed

section \<open>Properties of the refresh\<close>







end
